theory Spec2Isabelle
  imports Main "HOL-Library.AList" "HOL-Library.Char_ord" "HOL-Library.List_Lexorder"
begin

section \<open>json-structgen: schema resolution and Go type synthesis\<close>

text \<open>
  The development embeds the generator of \<^verbatim>\<open>src/structgen.go\<close> (the revision with the
  \<^verbatim>\<open>-prefix\<close> flag, lines 212 to 442 of the file): \<^verbatim>\<open>SchemaFromInterface\<close>, the method
  \<^verbatim>\<open>LoadRef\<close>, the function \<^verbatim>\<open>LoadRef\<close>, \<^verbatim>\<open>GoType\<close>, \<^verbatim>\<open>SortedKeys\<close>, \<^verbatim>\<open>Capitalize\<close>
  and the part of \<^verbatim>\<open>main\<close> that runs them.

  \<^item> A Go \<^verbatim>\<open>interface{}\<close> holding a decoded JSON value is the datatype \<open>json\<close>; the nil
    interface is \<open>JNull\<close>.
  \<^item> A Go map is an association list read through \<open>map_of\<close>; its keys are those of
    \<open>AList.clearjunk\<close>, so a list with a repeated key stands for the map its first bindings
    give. The order of the list is the iteration order of the run.
  \<^item> A \<^verbatim>\<open>*JsonSchema\<close> is a \<open>JsonSchema option\<close>, \<open>None\<close> the nil pointer.
  \<^item> Every panic is a value \<open>Panic e\<close>.
  \<^item> The recursion of the program follows references through files and need not end, so
    every recursive function takes a bound on the depth of calls and answers \<open>OutOfFuel\<close>
    when the bound is reached.
  \<^item> The global \<^verbatim>\<open>GlobalTypes\<close> is passed in and returned.
\<close>

subsection \<open>Data\<close>

datatype json =
    JNull
  | JBool bool
  | JNum string
  | JStr string
  | JArr "json list"
  | JObj "(string \<times> json) list"

datatype JsonSchema = JsonSchema
  (Schema: string)
  (Ref: string)
  (Title: string)
  (Type: json)
  (Description: string)
  (Extends: "JsonSchema option")
  (Properties: "(string \<times> JsonSchema option) list option")
  (AdditionalInterface: json)
  (AdditionalProperties: "JsonSchema option")
  (Items: "JsonSchema option")

text \<open>
  The panics of the program, one constructor for each place that panics, with the value
  its message is built from. \<open>BadAssertion\<close> is a failed type assertion and \<open>NilPointer\<close>
  a method called on a nil node; both are raised by the Go runtime.
\<close>

datatype error =
    RefNotFound string
  | DecodeFailed string
  | RefWithRef JsonSchema
  | NoItems JsonSchema
  | UnknownTypeString string
  | UnknownType json
  | UnknownSchemaInterface json
  | BadAssertion
  | NilPointer

datatype error_kind = ResolutionError | SchemaError | TypeError | RuntimeError

text \<open>
  The program fails in one way, the panic. Section 7 of the specification groups the panics
  by what went wrong, and the grouping is given here so that a statement can name the
  group. The panics of the Go runtime and the panic of line 275 are in none of the three
  groups of the specification.
\<close>

fun kind_of :: "error \<Rightarrow> error_kind" where
  "kind_of (RefNotFound p) = ResolutionError"
| "kind_of (DecodeFailed p) = ResolutionError"
| "kind_of (RefWithRef js) = ResolutionError"
| "kind_of (NoItems js) = SchemaError"
| "kind_of (UnknownTypeString t) = TypeError"
| "kind_of (UnknownType t) = TypeError"
| "kind_of (UnknownSchemaInterface v) = RuntimeError"
| "kind_of BadAssertion = RuntimeError"
| "kind_of NilPointer = RuntimeError"

datatype 'a result = OutOfFuel | Panic error | Ok 'a

text \<open>
  \<^verbatim>\<open>ioutil.ReadFile\<close> and \<^verbatim>\<open>json.Unmarshal\<close> belong to Go's library. What they do for a path
  is a parameter of the model: the file is missing, or it does not decode, or decoding
  updates the receiving node (decoding is directed by the destination, so the update is a
  function of the node it is applied to).
\<close>

datatype load = NotFound | Malformed | Decoded "JsonSchema \<Rightarrow> JsonSchema"

type_synonym files = "string \<Rightarrow> load"

type_synonym registry = "(string \<times> string) list"

subsection \<open>Strings\<close>

definition nl :: char where "nl = CHR 0x0A"
definition dq :: char where "dq = CHR 0x22"
definition bq :: char where "bq = CHR 0x60"

text \<open>\<^verbatim>\<open>strings.Split(in, " ")\<close>: the pieces between single spaces, empty pieces included.\<close>

fun Split_sp :: "string \<Rightarrow> string list" where
  "Split_sp [] = [[]]"
| "Split_sp (c # cs) =
     (if c = CHR '' '' then [] # Split_sp cs
      else (case Split_sp cs of [] \<Rightarrow> [[c]] | w # ws \<Rightarrow> (c # w) # ws))"

text \<open>
  \<^verbatim>\<open>strings.ToUpper(word[0:1])\<close>: the argument is the first byte of the word. An ASCII
  lower-case letter becomes its upper-case letter and any other ASCII byte stays. A byte
  from 0x80 on is not valid UTF-8 by itself: the Go library writes U+FFFD for it (three
  bytes; early releases left the byte as it was). No property below depends on that case.
\<close>

definition ToUpper1 :: "char \<Rightarrow> string" where
  "ToUpper1 c =
     (let n = (of_char c :: nat) in
      if 97 \<le> n \<and> n \<le> 122 then [char_of (n - 32)]
      else if n < 128 then [c]
      else [char_of (239 :: nat), char_of (191 :: nat), char_of (189 :: nat)])"

fun cap_word :: "string \<Rightarrow> string" where
  "cap_word [] = []"
| "cap_word (c # cs) = ToUpper1 c @ cs"

definition Capitalize :: "string \<Rightarrow> string" where
  "Capitalize inp = concat (map cap_word (Split_sp inp))"

subsection \<open>Maps\<close>

text \<open>\<^verbatim>\<open>reflect.ValueOf(in).MapKeys()\<close>: the keys of the map, each once.\<close>

definition MapKeys :: "(string \<times> 'a) list \<Rightarrow> string list" where
  "MapKeys m = map fst (AList.clearjunk m)"

definition SortedKeys :: "(string \<times> 'a) list \<Rightarrow> string list" where
  "SortedKeys m = sort (MapKeys m)"

text \<open>\<^verbatim>\<open>in[k]\<close> on a \<^verbatim>\<open>map[string]interface{}\<close>: nil when the key is missing.\<close>

definition index_json :: "(string \<times> json) list \<Rightarrow> string \<Rightarrow> json" where
  "index_json m k = (case map_of m k of None \<Rightarrow> JNull | Some v \<Rightarrow> v)"

text \<open>A nil \<^verbatim>\<open>Properties\<close> map reads as the empty map.\<close>

definition props_of :: "JsonSchema \<Rightarrow> (string \<times> JsonSchema option) list" where
  "props_of js = (case Properties js of None \<Rightarrow> [] | Some ps \<Rightarrow> ps)"

subsection \<open>Resolution\<close>

text \<open>The function \<^verbatim>\<open>LoadRef(ref, schema)\<close>, lines 370 to 380.\<close>

definition LoadRef_file :: "files \<Rightarrow> string \<Rightarrow> JsonSchema \<Rightarrow> JsonSchema result" where
  "LoadRef_file fs ref schema =
     (case fs ref of
        NotFound \<Rightarrow> Panic (RefNotFound ref)
      | Malformed \<Rightarrow> Panic (DecodeFailed ref)
      | Decoded d \<Rightarrow> Ok (d schema))"

definition clear_Ref :: "JsonSchema \<Rightarrow> JsonSchema" where
  "clear_Ref js =
     JsonSchema (Schema js) [] (Title js) (Type js) (Description js) (Extends js)
       (Properties js) (AdditionalInterface js) (AdditionalProperties js) (Items js)"

text \<open>The method \<^verbatim>\<open>LoadRef\<close>, lines 337 to 344: the reference is taken once.\<close>

definition LoadRef_ref :: "files \<Rightarrow> JsonSchema \<Rightarrow> JsonSchema result" where
  "LoadRef_ref fs js =
     (case (if Ref js \<noteq> [] then LoadRef_file fs (Ref js) (clear_Ref js) else Ok js) of
        OutOfFuel \<Rightarrow> OutOfFuel
      | Panic e \<Rightarrow> Panic e
      | Ok js1 \<Rightarrow> if Ref js1 \<noteq> [] then Panic (RefWithRef js1) else Ok js1)"

text \<open>Lines 345 to 348: \<^verbatim>\<open>Properties\<close> is made, \<^verbatim>\<open>AdditionalProperties\<close> is stored.\<close>

definition LoadRef_norm :: "JsonSchema \<Rightarrow> JsonSchema option \<Rightarrow> JsonSchema" where
  "LoadRef_norm js ap =
     JsonSchema (Schema js) (Ref js) (Title js) (Type js) (Description js) (Extends js)
       (Some (props_of js)) (AdditionalInterface js) ap (Items js)"

text \<open>Lines 362 to 366: a property of the extended node is stored under a key not yet there.\<close>

definition add_missing ::
  "string \<times> JsonSchema option \<Rightarrow> (string \<times> JsonSchema option) list
     \<Rightarrow> (string \<times> JsonSchema option) list" where
  "add_missing kv ps = (if map_of ps (fst kv) = None then AList.update (fst kv) (snd kv) ps else ps)"

text \<open>Lines 353 to 366, with \<open>e\<close> the extended node after its own \<^verbatim>\<open>LoadRef\<close>.\<close>

definition LoadRef_merge :: "JsonSchema \<Rightarrow> JsonSchema \<Rightarrow> JsonSchema" where
  "LoadRef_merge js e =
     JsonSchema (Schema js) (Ref js)
       (if Title js = [] then Title e else Title js)
       (if Type js = JNull then Type e else Type js)
       (Description js) (Some e)
       (Some (fold add_missing (AList.clearjunk (props_of e)) (props_of js)))
       (AdditionalInterface js) (AdditionalProperties js)
       (if Items js = None then Items e else Items js)"

text \<open>The loop of lines 268 to 270 over the entries of \<^verbatim>\<open>in["properties"]\<close>.\<close>

fun props_loop ::
  "(json \<Rightarrow> JsonSchema option result) \<Rightarrow> (string \<times> json) list
     \<Rightarrow> (string \<times> JsonSchema option) list \<Rightarrow> (string \<times> JsonSchema option) list result" where
  "props_loop g [] acc = Ok acc"
| "props_loop g (kv # kvs) acc =
     (case g (snd kv) of
        OutOfFuel \<Rightarrow> OutOfFuel
      | Panic e \<Rightarrow> Panic e
      | Ok c \<Rightarrow> props_loop g kvs (AList.update (fst kv) c acc))"

text \<open>The type assertion \<^verbatim>\<open>str.(string)\<close> on an entry that is present.\<close>

definition assert_string :: "(string \<times> json) list \<Rightarrow> string \<Rightarrow> string option result" where
  "assert_string m k =
     (case map_of m k of
        None \<Rightarrow> Ok None
      | Some (JStr s) \<Rightarrow> Ok (Some s)
      | Some _ \<Rightarrow> Panic BadAssertion)"

definition or_empty :: "string option \<Rightarrow> string" where
  "or_empty s = (case s of None \<Rightarrow> [] | Some t \<Rightarrow> t)"

text \<open>A panic or an exhausted bound ends the computation; a value is passed on.\<close>

definition bind_r :: "'a result \<Rightarrow> ('a \<Rightarrow> 'b result) \<Rightarrow> 'b result" where
  "bind_r m f = (case m of OutOfFuel \<Rightarrow> OutOfFuel | Panic e \<Rightarrow> Panic e | Ok x \<Rightarrow> f x)"

text \<open>
  \<^verbatim>\<open>SchemaFromInterface\<close> (lines 243 to 277) and the method \<^verbatim>\<open>LoadRef\<close> (lines 336 to 368)
  call each other. The first argument bounds the depth of calls. The fields of the
  composite literal are evaluated in the order they are written.
\<close>

fun SchemaFromInterface :: "nat \<Rightarrow> files \<Rightarrow> json \<Rightarrow> JsonSchema option result"
and LoadRef :: "nat \<Rightarrow> files \<Rightarrow> JsonSchema \<Rightarrow> JsonSchema result" where
  "SchemaFromInterface 0 fs inp = OutOfFuel"
| "SchemaFromInterface (Suc n) fs JNull = Ok None"
| "SchemaFromInterface (Suc n) fs (JBool b) = Ok None"
| "SchemaFromInterface (Suc n) fs (JObj m) =
     bind_r (SchemaFromInterface n fs (index_json m ''extends'')) (\<lambda>ext.
     bind_r (SchemaFromInterface n fs (index_json m ''items'')) (\<lambda>its.
     bind_r (assert_string m ''$ref'') (\<lambda>ref.
     bind_r (assert_string m ''title'') (\<lambda>title.
     bind_r (assert_string m ''description'') (\<lambda>descr.
     bind_r (case map_of m ''properties'' of
               None \<Rightarrow> Ok None
             | Some (JObj pm) \<Rightarrow>
                 bind_r (props_loop (\<lambda>v. SchemaFromInterface n fs v) (AList.clearjunk pm) [])
                   (\<lambda>ps. Ok (Some ps))
             | Some _ \<Rightarrow> Panic BadAssertion) (\<lambda>props.
     bind_r (LoadRef n fs
               (JsonSchema [] (or_empty ref) (or_empty title) (index_json m ''type'')
                  (or_empty descr) ext props JNull None its)) (\<lambda>out.
     Ok (Some out))))))))"
| "SchemaFromInterface (Suc n) fs (JNum x) = Panic (UnknownSchemaInterface (JNum x))"
| "SchemaFromInterface (Suc n) fs (JStr s) = Panic (UnknownSchemaInterface (JStr s))"
| "SchemaFromInterface (Suc n) fs (JArr xs) = Panic (UnknownSchemaInterface (JArr xs))"
| "LoadRef 0 fs js = OutOfFuel"
| "LoadRef (Suc n) fs js =
     bind_r (LoadRef_ref fs js) (\<lambda>js1.
     bind_r (SchemaFromInterface n fs (AdditionalInterface js1)) (\<lambda>ap.
     (case Extends js1 of
        None \<Rightarrow> Ok (LoadRef_norm js1 ap)
      | Some e \<Rightarrow>
          bind_r (LoadRef n fs e) (\<lambda>e'. Ok (LoadRef_merge (LoadRef_norm js1 ap) e')))))"

subsection \<open>Synthesis\<close>

text \<open>One line of the struct body, line 312.\<close>

definition field_line :: "string \<Rightarrow> string \<Rightarrow> string" where
  "field_line k t = Capitalize k @ '' '' @ t @ '' '' @ [bq] @ ''json:'' @ [dq] @ k @ [dq, bq, nl]"

text \<open>
  The loop of lines 311 to 313 over the sorted keys. \<^verbatim>\<open>js.Properties[n]\<close> may be the nil
  pointer (a property decoded from \<^verbatim>\<open>null\<close>), on which \<^verbatim>\<open>GoType\<close> panics.
\<close>

fun fields ::
  "(JsonSchema \<Rightarrow> registry \<Rightarrow> (string \<times> registry) result)
     \<Rightarrow> (string \<times> JsonSchema option) list \<Rightarrow> string list \<Rightarrow> string \<Rightarrow> registry
     \<Rightarrow> (string \<times> registry) result" where
  "fields g ps [] src reg = Ok (src, reg)"
| "fields g ps (k # ks) src reg =
     (case map_of ps k of
        Some (Some c) \<Rightarrow>
          bind_r (g c reg) (\<lambda>(t, reg'). fields g ps ks (src @ field_line k t) reg')
      | _ \<Rightarrow> Panic NilPointer)"

text \<open>The node made at line 330: the title and one type, every other field zero.\<close>

definition type_node :: "string \<Rightarrow> json \<Rightarrow> JsonSchema" where
  "type_node title t = JsonSchema [] [] title t [] None None JNull None None"

text \<open>
  \<^verbatim>\<open>GoType\<close>, lines 279 to 334. \<open>pre\<close> is \<^verbatim>\<open>structPrefix\<close>; the registry \<^verbatim>\<open>GlobalTypes\<close> is the
  last argument and is returned with the type expression. What \<^verbatim>\<open>LoadRef\<close> writes into the
  node is read here and by no later call, since a node is synthesized once.
\<close>

fun GoType ::
  "nat \<Rightarrow> files \<Rightarrow> string \<Rightarrow> JsonSchema \<Rightarrow> bool \<Rightarrow> registry \<Rightarrow> (string \<times> registry) result" where
  "GoType 0 fs pre js collapse reg = OutOfFuel"
| "GoType (Suc n) fs pre js collapse reg =
     bind_r (LoadRef n fs js) (\<lambda>js'.
       (case Type js' of
          JStr t \<Rightarrow>
            if t = ''any'' then Ok (''interface{}'', reg)
            else if t = ''boolean'' then Ok (''bool'', reg)
            else if t = ''integer'' then Ok (''int64'', reg)
            else if t = ''number'' then Ok (''float64'', reg)
            else if t = ''string'' then Ok (''string'', reg)
            else if t = ''array'' then
              (case Items js' of
                 None \<Rightarrow> Panic (NoItems js')
               | Some it \<Rightarrow>
                   bind_r (GoType n fs pre it True reg) (\<lambda>(s, reg'). Ok (''[]'' @ s, reg')))
            else if t = ''object'' then
              (let name = Capitalize (Title js') in
               if length (MapKeys (props_of js')) = 0 then
                 (case AdditionalProperties js' of
                    Some ap \<Rightarrow>
                      bind_r (GoType n fs pre ap True reg)
                        (\<lambda>(s, reg'). Ok (''map[string]'' @ s, reg'))
                  | None \<Rightarrow> Ok (''interface{}'', reg))
               else
                 bind_r (fields (\<lambda>c r. GoType n fs pre c True r) (props_of js')
                           (SortedKeys (props_of js')) (''struct {'' @ [nl]) reg)
                   (\<lambda>(body, reg').
                      (let src = body @ ''}'' in
                       if length name > 0 then
                         (if collapse then Ok (pre @ name, AList.update (pre @ name) src reg')
                          else Ok (src, AList.update (pre @ name) src reg'))
                       else Ok (src, reg'))))
            else Panic (UnknownTypeString t)
        | JArr ts \<Rightarrow>
            if length ts \<noteq> 1 then Ok (''interface{}'', reg)
            else GoType n fs pre (type_node (Title js') (hd ts)) collapse reg
        | t \<Rightarrow> Panic (UnknownType t)))"

subsection \<open>The run\<close>

text \<open>The zero value of \<^verbatim>\<open>var schema JsonSchema\<close>.\<close>

definition zero_schema :: JsonSchema where
  "zero_schema = JsonSchema [] [] [] JNull [] None None JNull None None"

text \<open>
  \<^verbatim>\<open>main\<close>, lines 425 to 430: the registry is made empty, the entry document is decoded
  into the zero node and synthesized. The program drops the type expression; the model
  returns it with the registry.
\<close>

definition main_synth :: "nat \<Rightarrow> files \<Rightarrow> string \<Rightarrow> string \<Rightarrow> (string \<times> registry) result" where
  "main_synth n fs pre arg =
     bind_r (LoadRef_file fs arg zero_schema) (\<lambda>schema. GoType n fs pre schema True [])"

text \<open>\<^verbatim>\<open>GlobalTypes[name]\<close>: the empty string when the name is missing.\<close>

definition index_str :: "registry \<Rightarrow> string \<Rightarrow> string" where
  "index_str reg name = (case map_of reg name of None \<Rightarrow> [] | Some v \<Rightarrow> v)"

text \<open>
  Lines 437 to 442: the declarations in the order they are printed, each with its name and
  the source text handed to \<^verbatim>\<open>format.Source\<close>. The formatter is Go's and is left out, and so
  is the \<^verbatim>\<open>package\<close> line printed before the declarations (lines 432 to 435).
\<close>

definition drain :: "registry \<Rightarrow> (string \<times> string) list" where
  "drain reg = map (\<lambda>name. (name, ''type '' @ name @ '' '' @ index_str reg name)) (SortedKeys reg)"

definition main :: "nat \<Rightarrow> files \<Rightarrow> string \<Rightarrow> string \<Rightarrow> (string \<times> string) list result" where
  "main n fs pre arg = bind_r (main_synth n fs pre arg) (\<lambda>(t, reg). Ok (drain reg))"

subsection \<open>Example schemas\<close>

text \<open>Small schemas on which the theorems below are run.\<close>

definition leaf :: "json \<Rightarrow> JsonSchema" where
  "leaf t = JsonSchema [] [] [] t [] None None JNull None None"

definition obj :: "string \<Rightarrow> (string \<times> JsonSchema option) list \<Rightarrow> JsonSchema" where
  "obj title ps = JsonSchema [] [] title (JStr ''object'') [] None (Some ps) JNull None None"

definition ref_node :: "string \<Rightarrow> JsonSchema" where
  "ref_node p = JsonSchema [] p [] JNull [] None None JNull None None"

text \<open>
  Decoding
  \<^verbatim>\<open>{"title": "base", "type": "object", "properties": {"a": {"type": "integer"},
  "c": {"type": "integer"}}}\<close>
  sets the title and the type, stores the two properties in the map of the node (a new
  map when the node has none) and keeps the other fields.
\<close>

definition ex_base_dec :: "JsonSchema \<Rightarrow> JsonSchema" where
  "ex_base_dec j =
     JsonSchema (Schema j) (Ref j) ''base'' (JStr ''object'') (Description j) (Extends j)
       (Some (AList.update ''c'' (Some (leaf (JStr ''integer'')))
               (AList.update ''a'' (Some (leaf (JStr ''integer''))) (props_of j))))
       (AdditionalInterface j) (AdditionalProperties j) (Items j)"

text \<open>Decoding \<^verbatim>\<open>{"$ref": "base.json"}\<close> sets the reference.\<close>

definition ex_chain_dec :: "JsonSchema \<Rightarrow> JsonSchema" where
  "ex_chain_dec j =
     JsonSchema (Schema j) ''base.json'' (Title j) (Type j) (Description j) (Extends j)
       (Properties j) (AdditionalInterface j) (AdditionalProperties j) (Items j)"

text \<open>
  Decoding
  \<^verbatim>\<open>{"title": "foo", "type": "object", "properties": {"x": {"type": "string"}}}\<close>.
\<close>

definition ex_foo_dec :: "JsonSchema \<Rightarrow> JsonSchema" where
  "ex_foo_dec j =
     JsonSchema (Schema j) (Ref j) ''foo'' (JStr ''object'') (Description j) (Extends j)
       (Some (AList.update ''x'' (Some (leaf (JStr ''string''))) (props_of j)))
       (AdditionalInterface j) (AdditionalProperties j) (Items j)"

text \<open>
  Two objects of different titles, the title later in the alphabet under the key that
  comes first, and decoding the document that holds them:
  \<^verbatim>\<open>{"type": "object", "properties": {"a": {"title": "zeta", "type": "object",
  "properties": {"x": {"type": "string"}}}, "b": {"title": "alpha", "type": "object",
  "properties": {"y": {"type": "integer"}}}}}\<close>
\<close>

definition ex_zeta :: JsonSchema where
  "ex_zeta =
     JsonSchema [] [] ''zeta'' (JStr ''object'') [] None
       (Some [(''x'', Some (leaf (JStr ''string'')))]) JNull None None"

definition ex_alpha :: JsonSchema where
  "ex_alpha =
     JsonSchema [] [] ''alpha'' (JStr ''object'') [] None
       (Some [(''y'', Some (leaf (JStr ''integer'')))]) JNull None None"

definition ex_pair_dec :: "JsonSchema \<Rightarrow> JsonSchema" where
  "ex_pair_dec j =
     JsonSchema (Schema j) (Ref j) (Title j) (JStr ''object'') (Description j) (Extends j)
       (Some (AList.update ''b'' (Some ex_alpha) (AList.update ''a'' (Some ex_zeta) (props_of j))))
       (AdditionalInterface j) (AdditionalProperties j) (Items j)"

text \<open>
  Decoding
  \<^verbatim>\<open>{"type": "object", "additionalProperties": {"type": "string"}}\<close>
  and decoding the same document put under \<^verbatim>\<open>additionalProperties\<close> of another object:
  \<^verbatim>\<open>{"type": "object", "additionalProperties": {"type": "object",
  "additionalProperties": {"type": "string"}}}\<close>.
  The decoder stores the value of \<^verbatim>\<open>additionalProperties\<close> as it is (line 238).
\<close>

definition ex_inner_dec :: "JsonSchema \<Rightarrow> JsonSchema" where
  "ex_inner_dec j =
     JsonSchema (Schema j) (Ref j) (Title j) (JStr ''object'') (Description j) (Extends j)
       (Properties j) (JObj [(''type'', JStr ''string'')]) (AdditionalProperties j) (Items j)"

definition ex_nested_dec :: "JsonSchema \<Rightarrow> JsonSchema" where
  "ex_nested_dec j =
     JsonSchema (Schema j) (Ref j) (Title j) (JStr ''object'') (Description j) (Extends j)
       (Properties j)
       (JObj [(''type'', JStr ''object''),
              (''additionalProperties'', JObj [(''type'', JStr ''string'')])])
       (AdditionalProperties j) (Items j)"

text \<open>
  A directory with the documents \<^verbatim>\<open>base.json\<close>, \<^verbatim>\<open>chain.json\<close>, \<^verbatim>\<open>foo.json\<close>, \<^verbatim>\<open>pair.json\<close>,
  \<^verbatim>\<open>inner.json\<close> and \<^verbatim>\<open>nested.json\<close>.
\<close>

definition ex_files :: files where
  "ex_files p =
     (if p = ''base.json'' then Decoded ex_base_dec
      else if p = ''chain.json'' then Decoded ex_chain_dec
      else if p = ''foo.json'' then Decoded ex_foo_dec
      else if p = ''pair.json'' then Decoded ex_pair_dec
      else if p = ''inner.json'' then Decoded ex_inner_dec
      else if p = ''nested.json'' then Decoded ex_nested_dec
      else NotFound)"

text \<open>
  \<^verbatim>\<open>{"extends": {"$ref": "base.json"}, "properties": {"a": {"type": "string"},
  "b": {"type": "string"}}, "additionalProperties": false}\<close>
\<close>

definition ex_child :: JsonSchema where
  "ex_child =
     JsonSchema [] [] [] JNull [] (Some (ref_node ''base.json''))
       (Some [(''a'', Some (leaf (JStr ''string''))), (''b'', Some (leaf (JStr ''string'')))])
       (JBool False) None None"

definition ex_base_resolved :: JsonSchema where
  "ex_base_resolved =
     JsonSchema [] [] ''base'' (JStr ''object'') [] None
       (Some [(''a'', Some (leaf (JStr ''integer''))), (''c'', Some (leaf (JStr ''integer'')))])
       JNull None None"

definition ex_child_resolved :: JsonSchema where
  "ex_child_resolved =
     JsonSchema [] [] ''base'' (JStr ''object'') [] (Some ex_base_resolved)
       (Some [(''a'', Some (leaf (JStr ''string''))), (''b'', Some (leaf (JStr ''string''))),
              (''c'', Some (leaf (JStr ''integer'')))])
       (JBool False) None None"

text \<open>A node without content other than its type, before and after \<^verbatim>\<open>LoadRef\<close>.\<close>

definition leaf_resolved :: "json \<Rightarrow> JsonSchema" where
  "leaf_resolved t = JsonSchema [] [] [] t [] None (Some []) JNull None None"

text \<open>\<^verbatim>\<open>{"type": "array", "extends": {"items": {"type": "integer"}}}\<close>\<close>

definition ex_array_ext :: JsonSchema where
  "ex_array_ext =
     JsonSchema [] [] [] (JStr ''array'') []
       (Some (JsonSchema [] [] [] JNull [] None None JNull None (Some (leaf (JStr ''integer'')))))
       None JNull None None"

definition ex_array_ext_resolved :: JsonSchema where
  "ex_array_ext_resolved =
     JsonSchema [] [] [] (JStr ''array'') []
       (Some (JsonSchema [] [] [] JNull [] None (Some []) JNull None
                (Some (leaf (JStr ''integer'')))))
       (Some []) JNull None (Some (leaf (JStr ''integer'')))"

text \<open>
  \<^verbatim>\<open>{"title": "bag", "type": "object", "additionalProperties": ...}\<close> with the decoded value of
  \<^verbatim>\<open>additionalProperties\<close> as argument, before and after \<^verbatim>\<open>LoadRef\<close>.
\<close>

definition ex_bag :: "json \<Rightarrow> JsonSchema" where
  "ex_bag ai = JsonSchema [] [] ''bag'' (JStr ''object'') [] None None ai None None"

definition ex_bag_resolved :: "json \<Rightarrow> JsonSchema option \<Rightarrow> JsonSchema" where
  "ex_bag_resolved ai ap = JsonSchema [] [] ''bag'' (JStr ''object'') [] None (Some []) ai ap None"

text \<open>
  \<^verbatim>\<open>{"title": "foo", "type": ..., "properties": {"x": {"type": "string"}},
  "items": {"type": "string"}}\<close> with the decoded value of \<^verbatim>\<open>type\<close> as argument.
\<close>

definition ex_typed :: "json \<Rightarrow> JsonSchema" where
  "ex_typed t =
     JsonSchema [] [] ''foo'' t [] None (Some [(''x'', Some (leaf (JStr ''string'')))]) JNull None
       (Some (leaf (JStr ''string'')))"

text \<open>The struct body with the one field \<^verbatim>\<open>x\<close> of type \<^verbatim>\<open>string\<close>.\<close>

definition ex_body_x :: string where
  "ex_body_x = ''struct {'' @ [nl] @ field_line ''x'' ''string'' @ ''}''"

text \<open>\<^verbatim>\<open>{"type": "array", "items": ...}\<close> with the node of the items as argument.\<close>

definition ex_array_of :: "JsonSchema \<Rightarrow> JsonSchema" where
  "ex_array_of it = JsonSchema [] [] [] (JStr ''array'') [] None None JNull None (Some it)"

text \<open>
  Two objects of the same title \<^verbatim>\<open>foo\<close> and different properties under one untitled
  object, the keys given in descending order:
  \<^verbatim>\<open>{"type": "object", "properties": {"b": {"title": "foo", "type": "object",
  "properties": {"x": {"type": "string"}}}, "a": {"title": "foo", "type": "object",
  "properties": {"y": {"type": "integer"}}}}}\<close>
\<close>

definition ex_foo_x :: JsonSchema where
  "ex_foo_x = obj ''foo'' [(''x'', Some (leaf (JStr ''string'')))]"

definition ex_foo_y :: JsonSchema where
  "ex_foo_y = obj ''foo'' [(''y'', Some (leaf (JStr ''integer'')))]"

definition ex_body_y :: string where
  "ex_body_y = ''struct {'' @ [nl] @ field_line ''y'' ''int64'' @ ''}''"

definition ex_two :: JsonSchema where
  "ex_two = obj [] [(''b'', Some ex_foo_x), (''a'', Some ex_foo_y)]"

definition ex_body_two :: string where
  "ex_body_two =
     ''struct {'' @ [nl] @ field_line ''a'' ''JsonFoo'' @ field_line ''b'' ''JsonFoo'' @ ''}''"

text \<open>\<^verbatim>\<open>{"type": "array", "items": {"type": "array"}}\<close> after \<^verbatim>\<open>LoadRef\<close>.\<close>

definition ex_array_of_array_resolved :: JsonSchema where
  "ex_array_of_array_resolved =
     JsonSchema [] [] [] (JStr ''array'') [] None (Some []) JNull None
       (Some (leaf (JStr ''array'')))"

text \<open>The struct body of the document \<^verbatim>\<open>pair.json\<close>.\<close>

definition ex_body_pair :: string where
  "ex_body_pair =
     ''struct {'' @ [nl] @ field_line ''a'' ''JsonZeta'' @ field_line ''b'' ''JsonAlpha'' @ ''}''"

text \<open>
  An object with one property whose key is the letter a, a tab and the letter b:
  \<^verbatim>\<open>{"type": "object", "properties": {"a\tb": {"type": "string"}}}\<close>
\<close>

definition ex_tab_key :: string where
  "ex_tab_key = [CHR ''a'', CHR 0x09, CHR ''b'']"

definition ex_tab_obj :: JsonSchema where
  "ex_tab_obj = obj [] [(ex_tab_key, Some (leaf (JStr ''string'')))]"

section \<open>Properties\<close>

subsection \<open>Results\<close>

lemma bind_r_simps [simp]:
  "bind_r OutOfFuel f = OutOfFuel"
  "bind_r (Panic e) f = Panic e"
  "bind_r (Ok x) f = f x"
  by (simp_all add: bind_r_def)

lemma bind_r_eq_Ok: "bind_r m f = Ok y \<longleftrightarrow> (\<exists>x. m = Ok x \<and> f x = Ok y)"
  by (cases m) simp_all

lemma bind_r_eq_Panic:
  "bind_r m f = Panic e \<longleftrightarrow> m = Panic e \<or> (\<exists>x. m = Ok x \<and> f x = Panic e)"
  by (cases m) simp_all

subsection \<open>Resolution\<close>

lemma LoadRef_ref_Ok_Ref: "LoadRef_ref fs js = Ok js1 \<Longrightarrow> Ref js1 = []"
  by (auto simp: LoadRef_ref_def LoadRef_file_def split: if_splits load.splits result.splits)

lemma LoadRef_ref_no_ref: "Ref js = [] \<Longrightarrow> LoadRef_ref fs js = Ok js"
  by (simp add: LoadRef_ref_def)

lemma LoadRef_norm_sel [simp]:
  "Schema (LoadRef_norm js ap) = Schema js"
  "Ref (LoadRef_norm js ap) = Ref js"
  "Title (LoadRef_norm js ap) = Title js"
  "Type (LoadRef_norm js ap) = Type js"
  "Description (LoadRef_norm js ap) = Description js"
  "Extends (LoadRef_norm js ap) = Extends js"
  "Properties (LoadRef_norm js ap) = Some (props_of js)"
  "AdditionalInterface (LoadRef_norm js ap) = AdditionalInterface js"
  "AdditionalProperties (LoadRef_norm js ap) = ap"
  "Items (LoadRef_norm js ap) = Items js"
  by (simp_all add: LoadRef_norm_def)

lemma LoadRef_merge_sel [simp]:
  "Schema (LoadRef_merge js e) = Schema js"
  "Ref (LoadRef_merge js e) = Ref js"
  "Title (LoadRef_merge js e) = (if Title js = [] then Title e else Title js)"
  "Type (LoadRef_merge js e) = (if Type js = JNull then Type e else Type js)"
  "Description (LoadRef_merge js e) = Description js"
  "Extends (LoadRef_merge js e) = Some e"
  "Properties (LoadRef_merge js e) =
     Some (fold add_missing (AList.clearjunk (props_of e)) (props_of js))"
  "AdditionalInterface (LoadRef_merge js e) = AdditionalInterface js"
  "AdditionalProperties (LoadRef_merge js e) = AdditionalProperties js"
  "Items (LoadRef_merge js e) = (if Items js = None then Items e else Items js)"
  by (simp_all add: LoadRef_merge_def)

lemma props_of_Some [simp]: "Properties js = Some ps \<Longrightarrow> props_of js = ps"
  by (simp add: props_of_def)

lemma LoadRef_Suc_Ok:
  assumes "LoadRef (Suc n) fs js = Ok js'"
  shows "\<exists>js1 ap. LoadRef_ref fs js = Ok js1
    \<and> SchemaFromInterface n fs (AdditionalInterface js1) = Ok ap
    \<and> (case Extends js1 of
         None \<Rightarrow> js' = LoadRef_norm js1 ap
       | Some e \<Rightarrow> \<exists>e'. LoadRef n fs e = Ok e' \<and> js' = LoadRef_merge (LoadRef_norm js1 ap) e')"
proof -
  from assms obtain js1 where r: "LoadRef_ref fs js = Ok js1"
    and 1: "bind_r (SchemaFromInterface n fs (AdditionalInterface js1)) (\<lambda>ap.
      (case Extends js1 of
         None \<Rightarrow> Ok (LoadRef_norm js1 ap)
       | Some e \<Rightarrow>
           bind_r (LoadRef n fs e) (\<lambda>e'. Ok (LoadRef_merge (LoadRef_norm js1 ap) e')))) = Ok js'"
    by (auto simp: bind_r_eq_Ok)
  from 1 obtain ap where a: "SchemaFromInterface n fs (AdditionalInterface js1) = Ok ap"
    and 2: "(case Extends js1 of
         None \<Rightarrow> Ok (LoadRef_norm js1 ap)
       | Some e \<Rightarrow>
           bind_r (LoadRef n fs e) (\<lambda>e'. Ok (LoadRef_merge (LoadRef_norm js1 ap) e'))) = Ok js'"
    by (auto simp: bind_r_eq_Ok)
  have "case Extends js1 of
         None \<Rightarrow> js' = LoadRef_norm js1 ap
       | Some e \<Rightarrow> \<exists>e'. LoadRef n fs e = Ok e' \<and> js' = LoadRef_merge (LoadRef_norm js1 ap) e'"
    using 2 by (cases "Extends js1") (auto simp: bind_r_eq_Ok)
  with r a show ?thesis by blast
qed

lemma map_of_add_missing:
  "map_of (add_missing kv ps) k =
     (case map_of ps k of Some v \<Rightarrow> Some v
      | None \<Rightarrow> if k = fst kv then Some (snd kv) else None)"
  by (auto simp: add_missing_def update_conv' split: option.splits)

lemma map_of_fold_add_missing:
  "map_of (fold add_missing es ps) k =
     (case map_of ps k of Some v \<Rightarrow> Some v | None \<Rightarrow> map_of es k)"
proof (induction es arbitrary: ps)
  case Nil
  show ?case by (simp split: option.splits)
next
  case (Cons kv es)
  show ?case
    by (cases kv) (simp add: Cons.IH map_of_add_missing split: option.splits)
qed

lemma fold_add_missing_present:
  "\<forall>kv \<in> set es. map_of ps (fst kv) \<noteq> None \<Longrightarrow> fold add_missing es ps = ps"
  by (induction es arbitrary: ps) (auto simp: add_missing_def)

lemma fold_add_missing_twice:
  "fold add_missing es (fold add_missing es ps) = fold add_missing es ps"
proof (rule fold_add_missing_present, rule ballI)
  fix kv assume "kv \<in> set es"
  then have "map_of es (fst kv) \<noteq> None"
    by (metis domIff dom_map_of_conv_image_fst imageI)
  then show "map_of (fold add_missing es ps) (fst kv) \<noteq> None"
    by (simp add: map_of_fold_add_missing split: option.splits)
qed

lemma JsonSchema_eqI:
  "Schema a = Schema b \<Longrightarrow> Ref a = Ref b \<Longrightarrow> Title a = Title b \<Longrightarrow> Type a = Type b \<Longrightarrow>
   Description a = Description b \<Longrightarrow> Extends a = Extends b \<Longrightarrow> Properties a = Properties b \<Longrightarrow>
   AdditionalInterface a = AdditionalInterface b \<Longrightarrow>
   AdditionalProperties a = AdditionalProperties b \<Longrightarrow> Items a = Items b \<Longrightarrow> a = b"
  by (cases a, cases b) simp

lemma LoadRef_norm_fix:
  "Properties js \<noteq> None \<Longrightarrow> AdditionalProperties js = ap \<Longrightarrow> LoadRef_norm js ap = js"
  by (rule JsonSchema_eqI) auto

lemma LoadRef_merge_twice: "LoadRef_merge (LoadRef_merge js e) e = LoadRef_merge js e"
  by (rule JsonSchema_eqI) (simp_all add: fold_add_missing_twice)

subsection \<open>Resolving twice\<close>

text \<open>
  Claim C7. In a fixed file environment, when \<^verbatim>\<open>LoadRef\<close> returns on a node, a second
  \<^verbatim>\<open>LoadRef\<close> on the node it left returns too and leaves the same node: the second call
  changes nothing.
\<close>

theorem LoadRef_idempotent:
  "LoadRef n fs js = Ok js' \<Longrightarrow> LoadRef n fs js' = Ok js'"
proof (induction n arbitrary: js js')
  case 0
  then show ?case by simp
next
  case (Suc n)
  from LoadRef_Suc_Ok [OF Suc.prems] obtain js1 ap where
    r: "LoadRef_ref fs js = Ok js1" and
    a: "SchemaFromInterface n fs (AdditionalInterface js1) = Ok ap" and
    c: "case Extends js1 of
         None \<Rightarrow> js' = LoadRef_norm js1 ap
       | Some e \<Rightarrow> \<exists>e'. LoadRef n fs e = Ok e' \<and> js' = LoadRef_merge (LoadRef_norm js1 ap) e'"
    by blast
  have ref1: "Ref js1 = []" using r by (rule LoadRef_ref_Ok_Ref)
  show ?case
  proof (cases "Extends js1")
    case None
    with c have js': "js' = LoadRef_norm js1 ap" by simp
    have "LoadRef_ref fs js' = Ok js'" by (rule LoadRef_ref_no_ref) (simp add: js' ref1)
    moreover have "SchemaFromInterface n fs (AdditionalInterface js') = Ok ap"
      using a by (simp add: js')
    moreover have "Extends js' = None" by (simp add: js' None)
    moreover have "LoadRef_norm js' ap = js'" by (rule LoadRef_norm_fix) (simp_all add: js')
    ultimately show ?thesis by simp
  next
    case (Some e)
    with c obtain e' where
      e': "LoadRef n fs e = Ok e'" and js': "js' = LoadRef_merge (LoadRef_norm js1 ap) e'"
      by auto
    have again: "LoadRef n fs e' = Ok e'" using e' by (rule Suc.IH)
    have "LoadRef_ref fs js' = Ok js'" by (rule LoadRef_ref_no_ref) (simp add: js' ref1)
    moreover have "SchemaFromInterface n fs (AdditionalInterface js') = Ok ap"
      using a by (simp add: js')
    moreover have "Extends js' = Some e'" by (simp add: js')
    moreover have "LoadRef_norm js' ap = js'" by (rule LoadRef_norm_fix) (simp_all add: js')
    moreover have "LoadRef_merge js' e' = js'" unfolding js' by (rule LoadRef_merge_twice)
    ultimately show ?thesis using again by simp
  qed
qed

theorem LoadRef_idempotent_witness:
  "LoadRef 3 ex_files ex_child = Ok ex_child_resolved
   \<and> LoadRef 3 ex_files ex_child_resolved = Ok ex_child_resolved"
proof -
  have h: "LoadRef 3 ex_files ex_child = Ok ex_child_resolved"
    by code_simp
  from LoadRef_idempotent [OF h] h show ?thesis
    by simp
qed



subsection \<open>The reference is taken once\<close>



subsection \<open>Merging the extended node\<close>

text \<open>
  Claim C5. Let \<open>js1\<close> be the node once its reference is taken, with an extended node
  \<open>e\<close>. When \<^verbatim>\<open>LoadRef\<close> returns, \<open>e\<close> has been resolved to some \<open>e'\<close>; title, type and
  items of the result are those of \<open>js1\<close> unless \<open>js1\<close> has none, and then they are those
  of \<open>e'\<close>; every property of \<open>js1\<close> is kept, and a key that \<open>js1\<close> lacks has the
  property of \<open>e'\<close>.
\<close>

theorem LoadRef_extends_precedence:
  assumes "LoadRef (Suc n) fs js = Ok js'"
    and "LoadRef_ref fs js = Ok js1"
    and "Extends js1 = Some e"
  shows "\<exists>e'. LoadRef n fs e = Ok e' \<and> Extends js' = Some e'
    \<and> Title js' = (if Title js1 = [] then Title e' else Title js1)
    \<and> Type js' = (if Type js1 = JNull then Type e' else Type js1)
    \<and> Items js' = (if Items js1 = None then Items e' else Items js1)
    \<and> (\<forall>k. map_of (props_of js') k =
          (case map_of (props_of js1) k of
             Some v \<Rightarrow> Some v
           | None \<Rightarrow> map_of (props_of e') k))"
proof -
  from LoadRef_Suc_Ok [OF assms(1)] assms(2) obtain ap where
    c: "case Extends js1 of
         None \<Rightarrow> js' = LoadRef_norm js1 ap
       | Some e \<Rightarrow> \<exists>e'. LoadRef n fs e = Ok e' \<and> js' = LoadRef_merge (LoadRef_norm js1 ap) e'"
    by auto
  with assms(3) obtain e' where
    e': "LoadRef n fs e = Ok e'" and js': "js' = LoadRef_merge (LoadRef_norm js1 ap) e'"
    by auto
  have "\<forall>k. map_of (props_of js') k =
          (case map_of (props_of js1) k of
             Some v \<Rightarrow> Some v
           | None \<Rightarrow> map_of (props_of e') k)"
    by (simp add: js' map_of_fold_add_missing map_of_clearjunk split: option.splits)
  with e' show ?thesis by (auto simp: js')
qed

theorem LoadRef_extends_precedence_witness:
  "LoadRef (Suc 2) ex_files ex_child = Ok ex_child_resolved
   \<and> LoadRef_ref ex_files ex_child = Ok ex_child
   \<and> Extends ex_child = Some (ref_node ''base.json'')
   \<and> LoadRef 2 ex_files (ref_node ''base.json'') = Ok ex_base_resolved
   \<and> Title ex_child_resolved = Title ex_base_resolved
   \<and> Type ex_child_resolved = Type ex_base_resolved
   \<and> map_of (props_of ex_child_resolved) ''a'' = map_of (props_of ex_child) ''a''
   \<and> map_of (props_of ex_child_resolved) ''c'' = map_of (props_of ex_base_resolved) ''c''"
proof -
  have h1: "LoadRef (Suc 2) ex_files ex_child = Ok ex_child_resolved"
    by code_simp
  have h2: "LoadRef_ref ex_files ex_child = Ok ex_child"
    by code_simp
  have h3: "Extends ex_child = Some (ref_node ''base.json'')"
    by (simp add: ex_child_def)
  have h4: "LoadRef 2 ex_files (ref_node ''base.json'') = Ok ex_base_resolved"
    by code_simp
  from LoadRef_extends_precedence [OF h1 h2 h3] h4
  have "Title ex_child_resolved = (if Title ex_child = [] then Title ex_base_resolved else Title ex_child)
    \<and> Type ex_child_resolved = (if Type ex_child = JNull then Type ex_base_resolved else Type ex_child)
    \<and> (\<forall>k. map_of (props_of ex_child_resolved) k =
          (case map_of (props_of ex_child) k of
             Some v \<Rightarrow> Some v
           | None \<Rightarrow> map_of (props_of ex_base_resolved) k))"
    by auto
  moreover have "Title ex_child = []" "Type ex_child = JNull"
    "map_of (props_of ex_child) ''a'' = Some (Some (leaf (JStr ''string'')))"
    "map_of (props_of ex_child) ''c'' = None"
    by (simp_all add: ex_child_def props_of_def)
  ultimately show ?thesis using h1 h2 h3 h4 by simp
qed

subsection \<open>The branches of synthesis\<close>

lemma MapKeys_empty: "MapKeys ps = [] \<longleftrightarrow> ps = []"
  by (cases ps) (simp_all add: MapKeys_def)

lemma GoType_array:
  assumes "LoadRef n fs js = Ok js'" and "Type js' = JStr ''array''"
  shows "GoType (Suc n) fs pre js c reg =
    (case Items js' of
       None \<Rightarrow> Panic (NoItems js')
     | Some it \<Rightarrow> bind_r (GoType n fs pre it True reg) (\<lambda>(s, r). Ok (''[]'' @ s, r)))"
  using assms by simp

lemma GoType_object_empty:
  assumes "LoadRef n fs js = Ok js'" and "Type js' = JStr ''object''" and "props_of js' = []"
  shows "GoType (Suc n) fs pre js c reg =
    (case AdditionalProperties js' of
       Some ap \<Rightarrow> bind_r (GoType n fs pre ap True reg) (\<lambda>(s, r). Ok (''map[string]'' @ s, r))
     | None \<Rightarrow> Ok (''interface{}'', reg))"
  using assms by (simp add: MapKeys_empty)

lemma GoType_object_fields:
  assumes "LoadRef n fs js = Ok js'" and "Type js' = JStr ''object''" and "props_of js' \<noteq> []"
  shows "GoType (Suc n) fs pre js c reg =
    bind_r (fields (\<lambda>ch r. GoType n fs pre ch True r) (props_of js')
              (SortedKeys (props_of js')) (''struct {'' @ [nl]) reg)
      (\<lambda>(body, reg').
         if Capitalize (Title js') \<noteq> [] then
           (if c then Ok (pre @ Capitalize (Title js'),
                          AList.update (pre @ Capitalize (Title js')) (body @ ''}'') reg')
            else Ok (body @ ''}'',
                     AList.update (pre @ Capitalize (Title js')) (body @ ''}'') reg'))
         else Ok (body @ ''}'', reg'))"
  using assms by (simp add: MapKeys_empty Let_def)

lemma GoType_list:
  assumes "LoadRef n fs js = Ok js'" and "Type js' = JArr ts"
  shows "GoType (Suc n) fs pre js c reg =
    (if length ts \<noteq> 1 then Ok (''interface{}'', reg)
     else GoType n fs pre (type_node (Title js') (hd ts)) c reg)"
  using assms by simp

lemma GoType_scalar:
  assumes "LoadRef n fs js = Ok js'"
  shows "Type js' = JStr ''any'' \<Longrightarrow> GoType (Suc n) fs pre js c reg = Ok (''interface{}'', reg)"
    and "Type js' = JStr ''boolean'' \<Longrightarrow> GoType (Suc n) fs pre js c reg = Ok (''bool'', reg)"
    and "Type js' = JStr ''integer'' \<Longrightarrow> GoType (Suc n) fs pre js c reg = Ok (''int64'', reg)"
    and "Type js' = JStr ''number'' \<Longrightarrow> GoType (Suc n) fs pre js c reg = Ok (''float64'', reg)"
    and "Type js' = JStr ''string'' \<Longrightarrow> GoType (Suc n) fs pre js c reg = Ok (''string'', reg)"
  using assms by simp_all


lemma props_loop_Panic:
  "props_loop g kvs acc = Panic e \<Longrightarrow> \<exists>v. g v = Panic e"
proof (induction kvs arbitrary: acc)
  case Nil
  then show ?case by simp
next
  case (Cons kv kvs)
  then show ?case by (cases "g (snd kv)") auto
qed

lemma assert_string_Panic: "assert_string m k = Panic e \<Longrightarrow> e = BadAssertion"
  by (auto simp: assert_string_def split: option.splits json.splits)

lemma resolution_not_NoItems:
  "(\<forall>fs v x. SchemaFromInterface n fs v \<noteq> Panic (NoItems x))
   \<and> (\<forall>fs js x. LoadRef n fs js \<noteq> Panic (NoItems x))"
proof (induction n)
  case 0
  show ?case by simp
next
  case (Suc n)
  have sfi: "SchemaFromInterface (Suc n) fs v \<noteq> Panic (NoItems x)" for fs v x
  proof (cases v)
    case (JObj m)
    have p: "(case map_of m ''properties'' of
               None \<Rightarrow> Ok None
             | Some (JObj pm) \<Rightarrow>
                 bind_r (props_loop (\<lambda>v. SchemaFromInterface n fs v) (AList.clearjunk pm) [])
                   (\<lambda>ps. Ok (Some ps))
             | Some _ \<Rightarrow> Panic BadAssertion) \<noteq> Panic (NoItems x)"
      using Suc by (auto simp: bind_r_eq_Panic dest: props_loop_Panic split: option.splits json.splits)
    show ?thesis
      using Suc p by (auto simp: JObj bind_r_eq_Panic dest: assert_string_Panic)
  qed simp_all
  have lr: "LoadRef (Suc n) fs js \<noteq> Panic (NoItems x)" for fs js x
  proof -
    have "LoadRef_ref fs js \<noteq> Panic (NoItems x)"
      by (auto simp: LoadRef_ref_def LoadRef_file_def split: load.splits if_splits)
    then show ?thesis
      using Suc by (auto simp: bind_r_eq_Panic split: option.splits)
  qed
  from sfi lr show ?case by blast
qed

lemma LoadRef_not_NoItems: "LoadRef n fs js \<noteq> Panic (NoItems x)"
  using resolution_not_NoItems by blast

lemma fields_Panic:
  "fields g ps ks src reg = Panic e \<Longrightarrow> e = NilPointer \<or> (\<exists>ch r. g ch r = Panic e)"
proof (induction ks arbitrary: src reg)
  case Nil
  then show ?case by simp
next
  case (Cons k ks)
  show ?case
  proof (cases "map_of ps k")
    case None
    with Cons.prems show ?thesis by simp
  next
    case (Some o1)
    show ?thesis
    proof (cases o1)
      case None
      with Some Cons.prems show ?thesis by simp
    next
      case (Some ch)
      with \<open>map_of ps k = Some o1\<close> Cons.prems
      have "bind_r (g ch reg) (\<lambda>(t, reg'). fields g ps ks (src @ field_line k t) reg') = Panic e"
        by simp
      then show ?thesis
        using Cons.IH by (auto simp: bind_r_eq_Panic)
    qed
  qed
qed

lemma GoType_NoItems: "GoType n fs pre js c reg = Panic (NoItems x) \<Longrightarrow> Items x = None"
proof (induction n arbitrary: js c reg)
  case 0
  then show ?case by simp
next
  case (Suc n)
  from Suc.prems LoadRef_not_NoItems obtain js' where
    l: "LoadRef n fs js = Ok js'"
    by (auto simp: bind_r_eq_Panic)
  show ?case
  proof (cases "Type js'")
    case (JStr t)
    consider "t = ''array''" | "t = ''object''" "props_of js' = []"
      | "t = ''object''" "props_of js' \<noteq> []" | "t \<noteq> ''array''" "t \<noteq> ''object''"
      by blast
    then show ?thesis
    proof cases
      case 1
      with l JStr have "GoType (Suc n) fs pre js c reg =
        (case Items js' of
           None \<Rightarrow> Panic (NoItems js')
         | Some it \<Rightarrow> bind_r (GoType n fs pre it True reg) (\<lambda>(s, r). Ok (''[]'' @ s, r)))"
        by (simp only: GoType_array)
      with Suc.prems show ?thesis
        using Suc.IH by (auto simp del: GoType.simps simp: bind_r_eq_Panic split: option.splits)
    next
      case 2
      with l JStr have "GoType (Suc n) fs pre js c reg =
        (case AdditionalProperties js' of
           Some ap \<Rightarrow> bind_r (GoType n fs pre ap True reg) (\<lambda>(s, r). Ok (''map[string]'' @ s, r))
         | None \<Rightarrow> Ok (''interface{}'', reg))"
        by (simp only: GoType_object_empty)
      with Suc.prems show ?thesis
        using Suc.IH by (auto simp del: GoType.simps simp: bind_r_eq_Panic split: option.splits)
    next
      case 3
      with l JStr have "Type js' = JStr ''object''" by simp
      note eq = GoType_object_fields [OF l this 3(2), of pre c reg]
      from Suc.prems [unfolded eq] have
        "fields (\<lambda>ch r. GoType n fs pre ch True r) (props_of js')
              (SortedKeys (props_of js')) (''struct {'' @ [nl]) reg = Panic (NoItems x)"
        by (auto simp del: GoType.simps simp: bind_r_eq_Panic split: if_splits)
      from fields_Panic [OF this] show ?thesis using Suc.IH by auto
    next
      case 4
      with Suc.prems l JStr show ?thesis by (auto split: if_splits)
    qed
  next
    case (JArr ts)
    note eq = GoType_list [OF l JArr, of pre c reg]
    from Suc.prems [unfolded eq] show ?thesis
      using Suc.IH by (auto simp del: GoType.simps split: if_splits)
  qed (use Suc.prems l in auto)
qed


subsection \<open>Arrays\<close>

text \<open>
  Claim C9, as amended. Let \<open>js'\<close> be the node that \<^verbatim>\<open>LoadRef\<close> leaves, of type \<^verbatim>\<open>"array"\<close>; its
  items are those the node has after resolution, so items taken from the extended node
  count. Without items \<^verbatim>\<open>GoType\<close> panics with the Schema Error of this node (line 297), and it
  panics with the error of this node in no other case. With items, the result is that of
  synthesizing the items with collapse set: a type expression gets \<^verbatim>\<open>[]\<close> put before it, and
  a panic is passed on as it is. So \<^verbatim>\<open>GoType\<close> panics with a Schema Error exactly when the node
  has no items or the synthesis of its items panics with a Schema Error.
\<close>

theorem GoType_array_items:
  assumes "LoadRef n fs js = Ok js'" and "Type js' = JStr ''array''"
  shows "(GoType (Suc n) fs pre js c reg = Panic (NoItems js') \<longleftrightarrow> Items js' = None)
    \<and> kind_of (NoItems js') = SchemaError
    \<and> (\<forall>it. Items js' = Some it \<longrightarrow>
          GoType (Suc n) fs pre js c reg =
            bind_r (GoType n fs pre it True reg) (\<lambda>(s, r). Ok (''[]'' @ s, r)))
    \<and> (\<forall>it s r. Items js' = Some it \<and> GoType n fs pre it True reg = Ok (s, r) \<longrightarrow>
          GoType (Suc n) fs pre js c reg = Ok (''[]'' @ s, r))
    \<and> (\<forall>it e. Items js' = Some it \<and> GoType n fs pre it True reg = Panic e \<longrightarrow>
          GoType (Suc n) fs pre js c reg = Panic e)
    \<and> ((\<exists>e. GoType (Suc n) fs pre js c reg = Panic e \<and> kind_of e = SchemaError) \<longleftrightarrow>
          Items js' = None
          \<or> (\<exists>it e. Items js' = Some it \<and> GoType n fs pre it True reg = Panic e
                 \<and> kind_of e = SchemaError))"
proof -
  note eq = GoType_array [OF assms, of pre c reg]
  have absent: "GoType (Suc n) fs pre js c reg = Panic (NoItems js')" if "Items js' = None"
    using that by (simp only: eq option.case)
  have present: "GoType (Suc n) fs pre js c reg =
      bind_r (GoType n fs pre it True reg) (\<lambda>(s, r). Ok (''[]'' @ s, r))"
    if "Items js' = Some it" for it
    using that by (simp only: eq option.case)
  have only_if: "Items js' = None" if p: "GoType (Suc n) fs pre js c reg = Panic (NoItems js')"
  proof (cases "Items js'")
    case None
    then show ?thesis .
  next
    case (Some it)
    from p have "bind_r (GoType n fs pre it True reg) (\<lambda>(s, r). Ok (''[]'' @ s, r))
        = Panic (NoItems js')"
      by (simp only: present [OF Some])
    then have "GoType n fs pre it True reg = Panic (NoItems js')"
      by (cases "GoType n fs pre it True reg") (auto simp del: GoType.simps)
    then show ?thesis by (rule GoType_NoItems)
  qed
  have ok: "GoType (Suc n) fs pre js c reg = Ok (''[]'' @ s, r)"
    if "Items js' = Some it" "GoType n fs pre it True reg = Ok (s, r)" for it s r
    by (simp only: present [OF that(1)] that(2) bind_r_simps prod.case)
  have passed: "GoType (Suc n) fs pre js c reg = Panic e"
    if "Items js' = Some it" "GoType n fs pre it True reg = Panic e" for it e
    by (simp only: present [OF that(1)] that(2) bind_r_simps)
  have from_items: "GoType n fs pre it True reg = Panic e"
    if "Items js' = Some it" "GoType (Suc n) fs pre js c reg = Panic e" for it e
  proof -
    from that(2) have "bind_r (GoType n fs pre it True reg) (\<lambda>(s, r). Ok (''[]'' @ s, r)) = Panic e"
      by (simp only: present [OF that(1)])
    then show ?thesis
      by (cases "GoType n fs pre it True reg") (auto simp del: GoType.simps)
  qed
  show ?thesis
  proof (intro conjI allI impI iffI)
    show "kind_of (NoItems js') = SchemaError" by simp
  next
    fix it e assume "Items js' = Some it \<and> GoType n fs pre it True reg = Panic e"
    then show "GoType (Suc n) fs pre js c reg = Panic e" using passed by blast
  next
    assume "\<exists>e. GoType (Suc n) fs pre js c reg = Panic e \<and> kind_of e = SchemaError"
    then obtain e where e: "GoType (Suc n) fs pre js c reg = Panic e" "kind_of e = SchemaError"
      by blast
    show "Items js' = None
          \<or> (\<exists>it e. Items js' = Some it \<and> GoType n fs pre it True reg = Panic e
                 \<and> kind_of e = SchemaError)"
    proof (cases "Items js'")
      case None
      then show ?thesis by blast
    next
      case (Some it)
      from from_items [OF Some e(1)] Some e(2) show ?thesis by blast
    qed
  next
    assume "Items js' = None
          \<or> (\<exists>it e. Items js' = Some it \<and> GoType n fs pre it True reg = Panic e
                 \<and> kind_of e = SchemaError)"
    then show "\<exists>e. GoType (Suc n) fs pre js c reg = Panic e \<and> kind_of e = SchemaError"
    proof
      assume "Items js' = None"
      from absent [OF this] have "GoType (Suc n) fs pre js c reg = Panic (NoItems js')
          \<and> kind_of (NoItems js') = SchemaError"
        by (simp del: GoType.simps)
      then show ?thesis by blast
    next
      assume "\<exists>it e. Items js' = Some it \<and> GoType n fs pre it True reg = Panic e
                 \<and> kind_of e = SchemaError"
      then obtain it e where "Items js' = Some it" "GoType n fs pre it True reg = Panic e"
        "kind_of e = SchemaError"
        by blast
      with passed show ?thesis by blast
    qed
  next
    assume "GoType (Suc n) fs pre js c reg = Panic (NoItems js')"
    then show "Items js' = None" by (rule only_if)
  next
    assume "Items js' = None"
    then show "GoType (Suc n) fs pre js c reg = Panic (NoItems js')" by (rule absent)
  next
    fix it assume "Items js' = Some it"
    then show "GoType (Suc n) fs pre js c reg =
      bind_r (GoType n fs pre it True reg) (\<lambda>(s, r). Ok (''[]'' @ s, r))" by (rule present)
  next
    fix it s r assume "Items js' = Some it \<and> GoType n fs pre it True reg = Ok (s, r)"
    then show "GoType (Suc n) fs pre js c reg = Ok (''[]'' @ s, r)" using ok by blast
  qed
qed


theorem GoType_array_items_witness:
  "LoadRef 3 ex_files ex_array_ext = Ok ex_array_ext_resolved
   \<and> Type ex_array_ext_resolved = JStr ''array''
   \<and> Items ex_array_ext = None
   \<and> Items ex_array_ext_resolved = Some (leaf (JStr ''integer''))
   \<and> GoType (Suc 3) ex_files ''Json'' ex_array_ext True [] = Ok (''[]int64'', [])
   \<and> GoType (Suc 3) ex_files ''Json'' ex_array_ext True [] \<noteq> Panic (NoItems ex_array_ext_resolved)
   \<and> LoadRef 3 ex_files (leaf (JStr ''array'')) = Ok (leaf_resolved (JStr ''array''))
   \<and> GoType (Suc 3) ex_files ''Json'' (leaf (JStr ''array'')) True [] =
       Panic (NoItems (leaf_resolved (JStr ''array'')))
   \<and> LoadRef 4 ex_files (ex_array_of (leaf (JStr ''array''))) = Ok ex_array_of_array_resolved
   \<and> GoType (Suc 4) ex_files ''Json'' (ex_array_of (leaf (JStr ''array''))) True [] =
       Panic (NoItems (leaf_resolved (JStr ''array'')))"
proof -
  have h1: "LoadRef 3 ex_files ex_array_ext = Ok ex_array_ext_resolved"
    by code_simp
  have h2: "Type ex_array_ext_resolved = JStr ''array''"
    by (simp add: ex_array_ext_resolved_def)
  have h3: "Items ex_array_ext_resolved = Some (leaf (JStr ''integer''))"
    by (simp add: ex_array_ext_resolved_def)
  have h4: "GoType 3 ex_files ''Json'' (leaf (JStr ''integer'')) True [] = Ok (''int64'', [])"
    by code_simp
  have k1: "LoadRef 3 ex_files (leaf (JStr ''array'')) = Ok (leaf_resolved (JStr ''array''))"
    by code_simp
  have k2: "Type (leaf_resolved (JStr ''array'')) = JStr ''array''"
    by (simp add: leaf_resolved_def)
  have k3: "Items (leaf_resolved (JStr ''array'')) = None"
    by (simp add: leaf_resolved_def)
  have k4: "Items ex_array_ext = None"
    by (simp add: ex_array_ext_def)
  have m1: "LoadRef 4 ex_files (ex_array_of (leaf (JStr ''array''))) = Ok ex_array_of_array_resolved"
    by code_simp
  have m2: "Type ex_array_of_array_resolved = JStr ''array''"
    by (simp add: ex_array_of_array_resolved_def)
  have m3: "Items ex_array_of_array_resolved = Some (leaf (JStr ''array''))"
    by (simp add: ex_array_of_array_resolved_def)
  have m4: "GoType 4 ex_files ''Json'' (leaf (JStr ''array'')) True [] =
      Panic (NoItems (leaf_resolved (JStr ''array'')))"
    by code_simp
  note a = GoType_array_items [OF h1 h2, of "''Json''" True "[]"]
  note b = GoType_array_items [OF k1 k2, of "''Json''" True "[]"]
  note c = GoType_array_items [OF m1 m2, of "''Json''" True "[]"]
  from a have a1: "GoType (Suc 3) ex_files ''Json'' ex_array_ext True [] =
        Panic (NoItems ex_array_ext_resolved) \<longleftrightarrow> Items ex_array_ext_resolved = None"
    and a4: "\<forall>it s r. Items ex_array_ext_resolved = Some it
          \<and> GoType 3 ex_files ''Json'' it True [] = Ok (s, r) \<longrightarrow>
          GoType (Suc 3) ex_files ''Json'' ex_array_ext True [] = Ok (''[]'' @ s, r)"
    by blast+
  from a4 h3 h4 have "GoType (Suc 3) ex_files ''Json'' ex_array_ext True [] = Ok (''[]'' @ ''int64'', [])"
    by blast
  then have r1: "GoType (Suc 3) ex_files ''Json'' ex_array_ext True [] = Ok (''[]int64'', [])"
    by (simp del: GoType.simps)
  from a1 h3
  have r2: "GoType (Suc 3) ex_files ''Json'' ex_array_ext True [] \<noteq> Panic (NoItems ex_array_ext_resolved)"
    by (simp del: GoType.simps)
  from b have b1: "GoType (Suc 3) ex_files ''Json'' (leaf (JStr ''array'')) True [] =
        Panic (NoItems (leaf_resolved (JStr ''array''))) \<longleftrightarrow>
        Items (leaf_resolved (JStr ''array'')) = None"
    by blast
  from b1 k3
  have r3: "GoType (Suc 3) ex_files ''Json'' (leaf (JStr ''array'')) True [] =
       Panic (NoItems (leaf_resolved (JStr ''array'')))"
    by (simp del: GoType.simps)
  from c have c5: "\<forall>it e. Items ex_array_of_array_resolved = Some it
          \<and> GoType 4 ex_files ''Json'' it True [] = Panic e \<longrightarrow>
          GoType (Suc 4) ex_files ''Json'' (ex_array_of (leaf (JStr ''array''))) True [] = Panic e"
    by blast
  from c5 m3 m4
  have r4: "GoType (Suc 4) ex_files ''Json'' (ex_array_of (leaf (JStr ''array''))) True [] =
       Panic (NoItems (leaf_resolved (JStr ''array'')))"
    by blast
  from h1 h2 k4 h3 r1 r2 k1 r3 m1 r4 show ?thesis
    by (intro conjI)
qed

text \<open>
  Claim C9 as stated fails: an array whose items are an array without items has items,
  and its synthesis panics with a Schema Error, the one raised for the items.
\<close>

theorem GoType_array_items_counterexample:
  "LoadRef 4 ex_files (ex_array_of (leaf (JStr ''array''))) = Ok ex_array_of_array_resolved
   \<and> Items ex_array_of_array_resolved = Some (leaf (JStr ''array''))
   \<and> GoType 5 ex_files ''Json'' (ex_array_of (leaf (JStr ''array''))) True [] =
       Panic (NoItems (leaf_resolved (JStr ''array'')))
   \<and> kind_of (NoItems (leaf_resolved (JStr ''array''))) = SchemaError"
  by code_simp

lemma SchemaFromInterface_Ok_cases:
  assumes "SchemaFromInterface n fs v = Ok r"
  shows "(v = JNull \<or> (\<exists>b. v = JBool b)) \<and> r = None \<or> (\<exists>m. v = JObj m) \<and> r \<noteq> None"
proof (cases n)
  case 0
  with assms show ?thesis by simp
next
  case (Suc k)
  show ?thesis
  proof (cases v)
    case (JObj m)
    with assms Suc show ?thesis by (auto simp: bind_r_eq_Ok)
  qed (use assms Suc in auto)
qed

lemma LoadRef_Ok_Additional:
  assumes "LoadRef (Suc k) fs js = Ok js'"
  shows "SchemaFromInterface k fs (AdditionalInterface js') = Ok (AdditionalProperties js')"
proof -
  from LoadRef_Suc_Ok [OF assms] obtain js1 ap where
    a: "SchemaFromInterface k fs (AdditionalInterface js1) = Ok ap" and
    c: "case Extends js1 of
         None \<Rightarrow> js' = LoadRef_norm js1 ap
       | Some e \<Rightarrow> \<exists>e'. LoadRef k fs e = Ok e' \<and> js' = LoadRef_merge (LoadRef_norm js1 ap) e'"
    by blast
  from c have "AdditionalInterface js' = AdditionalInterface js1 \<and> AdditionalProperties js' = ap"
    by (cases "Extends js1") auto
  with a show ?thesis by simp
qed

lemma LoadRef_Ok_Suc: "LoadRef n fs js = Ok js' \<Longrightarrow> \<exists>k. n = Suc k"
  by (cases n) simp_all

subsection \<open>Objects without properties\<close>

text \<open>
  Let \<open>js'\<close> be the node that \<^verbatim>\<open>LoadRef\<close> leaves, of type \<^verbatim>\<open>"object"\<close> and with no properties.
  Its \<^verbatim>\<open>AdditionalProperties\<close> is what \<^verbatim>\<open>SchemaFromInterface\<close> makes of its field
  \<^verbatim>\<open>AdditionalInterface\<close>. When that field holds an object there is a nested node, and the
  result is that of synthesizing the nested node with collapse set, with \<^verbatim>\<open>map[string]\<close>
  put before the type expression. When it is nil or a boolean there is no nested node
  and the result is \<^verbatim>\<open>interface{}\<close> with the registry as it was.
\<close>

lemma GoType_object_no_properties:
  assumes "LoadRef n fs js = Ok js'" and "Type js' = JStr ''object''" and "props_of js' = []"
  shows "SchemaFromInterface (n - 1) fs (AdditionalInterface js') = Ok (AdditionalProperties js')
    \<and> (\<forall>m. AdditionalInterface js' = JObj m \<longrightarrow>
          (\<exists>ap. AdditionalProperties js' = Some ap
             \<and> GoType (Suc n) fs pre js c reg =
                 bind_r (GoType n fs pre ap True reg) (\<lambda>(s, r). Ok (''map[string]'' @ s, r))
             \<and> (\<forall>s r. GoType n fs pre ap True reg = Ok (s, r) \<longrightarrow>
                   GoType (Suc n) fs pre js c reg = Ok (''map[string]'' @ s, r))))
    \<and> (AdditionalInterface js' = JNull \<or> (\<exists>b. AdditionalInterface js' = JBool b) \<longrightarrow>
          AdditionalProperties js' = None
          \<and> GoType (Suc n) fs pre js c reg = Ok (''interface{}'', reg))"
proof -
  note eq = GoType_object_empty [OF assms, of pre c reg]
  from LoadRef_Ok_Suc [OF assms(1)] obtain k where k: "n = Suc k" by blast
  from assms(1) have sfi:
    "SchemaFromInterface (n - 1) fs (AdditionalInterface js') = Ok (AdditionalProperties js')"
    unfolding k by (simp only: diff_Suc_1 LoadRef_Ok_Additional)
  note cs = SchemaFromInterface_Ok_cases [OF sfi]
  have obj: "\<exists>ap. AdditionalProperties js' = Some ap
             \<and> GoType (Suc n) fs pre js c reg =
                 bind_r (GoType n fs pre ap True reg) (\<lambda>(s, r). Ok (''map[string]'' @ s, r))
             \<and> (\<forall>s r. GoType n fs pre ap True reg = Ok (s, r) \<longrightarrow>
                   GoType (Suc n) fs pre js c reg = Ok (''map[string]'' @ s, r))"
    if "AdditionalInterface js' = JObj m" for m
  proof -
    from cs that obtain ap where ap: "AdditionalProperties js' = Some ap" by auto
    have e: "GoType (Suc n) fs pre js c reg =
        bind_r (GoType n fs pre ap True reg) (\<lambda>(s, r). Ok (''map[string]'' @ s, r))"
      by (simp only: eq ap option.case)
    have "GoType (Suc n) fs pre js c reg = Ok (''map[string]'' @ s, r)"
      if "GoType n fs pre ap True reg = Ok (s, r)" for s r
      by (simp only: e that bind_r_simps prod.case)
    with ap e show ?thesis by blast
  qed
  have none: "AdditionalProperties js' = None
          \<and> GoType (Suc n) fs pre js c reg = Ok (''interface{}'', reg)"
    if "AdditionalInterface js' = JNull \<or> (\<exists>b. AdditionalInterface js' = JBool b)"
  proof -
    from cs that have ap: "AdditionalProperties js' = None" by auto
    have "GoType (Suc n) fs pre js c reg = Ok (''interface{}'', reg)"
      by (simp only: eq ap option.case)
    with ap show ?thesis by blast
  qed
  from sfi obj none show ?thesis by blast
qed

lemma GoType_object_no_properties_example:
  "LoadRef 4 ex_files (ex_bag (JObj [(''type'', JStr ''string'')])) =
     Ok (ex_bag_resolved (JObj [(''type'', JStr ''string'')]) (Some (leaf_resolved (JStr ''string''))))
   \<and> GoType (Suc 4) ex_files ''Json'' (ex_bag (JObj [(''type'', JStr ''string'')])) True [] =
       Ok (''map[string]string'', [])
   \<and> LoadRef 4 ex_files (ex_bag (JBool True)) = Ok (ex_bag_resolved (JBool True) None)
   \<and> GoType (Suc 4) ex_files ''Json'' (ex_bag (JBool True)) True [] = Ok (''interface{}'', [])
   \<and> LoadRef 4 ex_files (ex_bag JNull) = Ok (ex_bag_resolved JNull None)
   \<and> GoType (Suc 4) ex_files ''Json'' (ex_bag JNull) True [] = Ok (''interface{}'', [])"
proof -
  let ?ai = "JObj [(''type'', JStr ''string'')]"
  let ?ap = "leaf_resolved (JStr ''string'')"
  have h1: "LoadRef 4 ex_files (ex_bag ?ai) = Ok (ex_bag_resolved ?ai (Some ?ap))"
    by code_simp
  have h2: "LoadRef 4 ex_files (ex_bag (JBool True)) = Ok (ex_bag_resolved (JBool True) None)"
    by code_simp
  have h3: "LoadRef 4 ex_files (ex_bag JNull) = Ok (ex_bag_resolved JNull None)"
    by code_simp
  have t: "Type (ex_bag_resolved ai ap) = JStr ''object''" for ai ap
    by (simp add: ex_bag_resolved_def)
  have p: "props_of (ex_bag_resolved ai ap) = []" for ai ap
    by (simp add: ex_bag_resolved_def)
  have s: "AdditionalInterface (ex_bag_resolved ai ap) = ai"
    "AdditionalProperties (ex_bag_resolved ai ap) = ap" for ai ap
    by (simp_all add: ex_bag_resolved_def)
  have g: "GoType 4 ex_files ''Json'' ?ap True [] = Ok (''string'', [])"
    by code_simp
  from GoType_object_no_properties [OF h1 t p, of "''Json''" True "[]"] g
  have "GoType (Suc 4) ex_files ''Json'' (ex_bag ?ai) True [] = Ok (''map[string]'' @ ''string'', [])"
    unfolding s by blast
  moreover from GoType_object_no_properties [OF h2 t p, of "''Json''" True "[]"]
  have "GoType (Suc 4) ex_files ''Json'' (ex_bag (JBool True)) True [] = Ok (''interface{}'', [])"
    unfolding s by blast
  moreover from GoType_object_no_properties [OF h3 t p, of "''Json''" True "[]"]
  have "GoType (Suc 4) ex_files ''Json'' (ex_bag JNull) True [] = Ok (''interface{}'', [])"
    unfolding s by blast
  ultimately show ?thesis using h1 h2 h3 by simp
qed

text \<open>
  Claim C8. The field \<^verbatim>\<open>AdditionalInterface\<close> is filled when a document is decoded into a
  node (line 238) and by nothing else: \<^verbatim>\<open>SchemaFromInterface\<close> copies \<^verbatim>\<open>type\<close>, \<^verbatim>\<open>extends\<close>,
  \<^verbatim>\<open>items\<close>, \<^verbatim>\<open>$ref\<close>, \<^verbatim>\<open>title\<close>, \<^verbatim>\<open>description\<close> and \<^verbatim>\<open>properties\<close> into the node it makes
  (lines 252 to 271) and leaves out \<^verbatim>\<open>additionalProperties\<close>. So the code departs from the
  claim on the nodes that \<^verbatim>\<open>SchemaFromInterface\<close> makes. The description
  \<^verbatim>\<open>{"type": "object", "additionalProperties": {"type": "string"}}\<close> gives
  \<^verbatim>\<open>map[string]string\<close> as a document; under \<^verbatim>\<open>additionalProperties\<close> of another object it
  becomes a node without additional properties and gives \<^verbatim>\<open>interface{}\<close>, so that the
  enclosing document gives \<^verbatim>\<open>map[string]interface{}\<close>.
\<close>

theorem SchemaFromInterface_drops_additionalProperties:
  "main_synth 8 ex_files ''Json'' ''inner.json'' = Ok (''map[string]string'', [])
   \<and> main_synth 8 ex_files ''Json'' ''nested.json'' = Ok (''map[string]interface{}'', [])
   \<and> SchemaFromInterface 8 ex_files
         (JObj [(''type'', JStr ''object''),
                (''additionalProperties'', JObj [(''type'', JStr ''string'')])]) =
       Ok (Some (leaf_resolved (JStr ''object'')))
   \<and> AdditionalInterface (leaf_resolved (JStr ''object'')) = JNull
   \<and> GoType 8 ex_files ''Json'' (leaf_resolved (JStr ''object'')) True [] =
       Ok (''interface{}'', [])"
  by code_simp

subsection \<open>Type lists\<close>

lemma LoadRef_type_node:
  assumes "LoadRef n fs (type_node title t) = Ok js'"
  shows "js' = JsonSchema [] [] title t [] None (Some []) JNull None None"
proof -
  from LoadRef_Ok_Suc [OF assms] obtain k where k: "n = Suc k" by blast
  from LoadRef_Suc_Ok [OF assms [unfolded k]] obtain js1 ap where
    r: "LoadRef_ref fs (type_node title t) = Ok js1" and
    a: "SchemaFromInterface k fs (AdditionalInterface js1) = Ok ap" and
    c: "case Extends js1 of
         None \<Rightarrow> js' = LoadRef_norm js1 ap
       | Some e \<Rightarrow> \<exists>e'. LoadRef k fs e = Ok e' \<and> js' = LoadRef_merge (LoadRef_norm js1 ap) e'"
    by blast
  from r have js1: "js1 = type_node title t"
    by (simp add: LoadRef_ref_no_ref type_node_def)
  from a SchemaFromInterface_Ok_cases [of k fs JNull ap] have "ap = None"
    by (simp add: js1 type_node_def)
  with c show ?thesis
    by (simp add: js1 type_node_def LoadRef_norm_def props_of_def)
qed

lemma GoType_type_node:
  "GoType m fs pre (type_node title t) c reg = Ok (s, r) \<Longrightarrow>
     r = reg \<and> t \<noteq> JStr ''array'' \<and> (t = JStr ''object'' \<longrightarrow> s = ''interface{}'')"
proof (induction m arbitrary: t s)
  case 0
  then show ?case by simp
next
  case (Suc m)
  from Suc.prems obtain js' where l: "LoadRef m fs (type_node title t) = Ok js'"
    by (auto simp: bind_r_eq_Ok)
  from LoadRef_type_node [OF l]
  have js': "js' = JsonSchema [] [] title t [] None (Some []) JNull None None" .
  then have sel: "Type js' = t" "Items js' = None" "props_of js' = []"
    "AdditionalProperties js' = None" "Title js' = title"
    by (simp_all add: props_of_def)
  show ?case
  proof (cases t)
    case (JStr u)
    consider "u = ''array''" | "u = ''object''" | "u \<noteq> ''array''" "u \<noteq> ''object''"
      by blast
    then show ?thesis
    proof cases
      case 1
      with sel JStr have "Type js' = JStr ''array''" by simp
      from Suc.prems [unfolded GoType_array [OF l this]] sel show ?thesis by simp
    next
      case 2
      with sel JStr have "Type js' = JStr ''object''" by simp
      from Suc.prems [unfolded GoType_object_empty [OF l this sel(3)]] sel 2 JStr
      show ?thesis by simp
    next
      case 3
      with Suc.prems l sel JStr show ?thesis by (auto split: if_splits)
    qed
  next
    case (JArr ts)
    with sel have "Type js' = JArr ts" by simp
    note eq = GoType_list [OF l this, of pre c reg]
    from Suc.prems [unfolded eq] Suc.IH JArr sel show ?thesis
      by (auto simp del: GoType.simps split: if_splits)
  qed (use Suc.prems l sel in auto)
qed

text \<open>
  Claim C3, as amended. Let \<open>js'\<close> be the node that \<^verbatim>\<open>LoadRef\<close> leaves, its type a list. A
  list of no or of several elements gives \<^verbatim>\<open>interface{}\<close> and leaves the registry. A list of
  one element gives what \<^verbatim>\<open>GoType\<close>, with the same collapse, gives on a new node that has the
  title of \<open>js'\<close> and the element as type and nothing else: items, properties, additional
  properties and the extended node are not carried over. So the list \<^verbatim>\<open>["object"]\<close> gives
  \<^verbatim>\<open>interface{}\<close> whatever the properties are, and the list \<^verbatim>\<open>["array"]\<close> never returns a
  type, whatever the items are.
\<close>

theorem GoType_type_list:
  assumes "LoadRef n fs js = Ok js'" and "Type js' = JArr ts"
  shows "(length ts \<noteq> 1 \<longrightarrow> GoType (Suc n) fs pre js c reg = Ok (''interface{}'', reg))
    \<and> (\<forall>t. ts = [t] \<longrightarrow>
          GoType (Suc n) fs pre js c reg = GoType n fs pre (type_node (Title js') t) c reg)
    \<and> (\<forall>s r. ts = [JStr ''object''] \<and> GoType (Suc n) fs pre js c reg = Ok (s, r) \<longrightarrow>
          s = ''interface{}'' \<and> r = reg)
    \<and> (\<forall>s r. ts = [JStr ''array''] \<longrightarrow> GoType (Suc n) fs pre js c reg \<noteq> Ok (s, r))"
proof -
  note eq = GoType_list [OF assms, of pre c reg]
  have many: "GoType (Suc n) fs pre js c reg = Ok (''interface{}'', reg)" if "length ts \<noteq> 1"
    using that by (simp add: eq del: GoType.simps)
  have one: "GoType (Suc n) fs pre js c reg = GoType n fs pre (type_node (Title js') t) c reg"
    if "ts = [t]" for t
    using that by (simp add: eq del: GoType.simps)
  have ob: "s = ''interface{}'' \<and> r = reg"
    if "ts = [JStr ''object'']" "GoType (Suc n) fs pre js c reg = Ok (s, r)" for s r
    using GoType_type_node [of n fs pre "Title js'" "JStr ''object''" c reg s r] that
    by (simp add: one del: GoType.simps)
  have ar: "GoType (Suc n) fs pre js c reg \<noteq> Ok (s, r)" if "ts = [JStr ''array'']" for s r
    using GoType_type_node [of n fs pre "Title js'" "JStr ''array''" c reg s r] that
    by (auto simp add: one simp del: GoType.simps)
  from many one ob ar show ?thesis by blast
qed

theorem GoType_type_list_witness:
  "LoadRef 4 ex_files (ex_typed (JArr [JStr ''string''])) = Ok (ex_typed (JArr [JStr ''string'']))
   \<and> GoType (Suc 4) ex_files ''Json'' (ex_typed (JArr [JStr ''string''])) True [] = Ok (''string'', [])
   \<and> LoadRef 4 ex_files (ex_typed (JArr [JStr ''string'', JStr ''integer''])) =
       Ok (ex_typed (JArr [JStr ''string'', JStr ''integer'']))
   \<and> GoType (Suc 4) ex_files ''Json'' (ex_typed (JArr [JStr ''string'', JStr ''integer''])) True [] =
       Ok (''interface{}'', [])"
proof -
  have h1: "LoadRef 4 ex_files (ex_typed (JArr [JStr ''string''])) = Ok (ex_typed (JArr [JStr ''string'']))"
    by code_simp
  have h2: "LoadRef 4 ex_files (ex_typed (JArr [JStr ''string'', JStr ''integer''])) =
       Ok (ex_typed (JArr [JStr ''string'', JStr ''integer'']))"
    by code_simp
  have t: "Type (ex_typed u) = u" "Title (ex_typed u) = ''foo''" for u
    by (simp_all add: ex_typed_def)
  have g: "GoType 4 ex_files ''Json'' (type_node ''foo'' (JStr ''string'')) True [] = Ok (''string'', [])"
    by code_simp
  from GoType_type_list [OF h1 t(1), of "''Json''" True "[]"] g
  have "GoType (Suc 4) ex_files ''Json'' (ex_typed (JArr [JStr ''string''])) True [] = Ok (''string'', [])"
    unfolding t by simp
  moreover from GoType_type_list [OF h2 t(1), of "''Json''" True "[]"]
  have "GoType (Suc 4) ex_files ''Json'' (ex_typed (JArr [JStr ''string'', JStr ''integer''])) True [] =
       Ok (''interface{}'', [])"
    by simp
  ultimately show ?thesis using h1 h2 by simp
qed

text \<open>
  Claim C3 as stated fails: with items and properties present, the type \<^verbatim>\<open>"array"\<close> gives
  \<^verbatim>\<open>[]string\<close> and the list \<^verbatim>\<open>["array"]\<close> panics for lack of items; the type \<^verbatim>\<open>"object"\<close>
  gives the named struct and the list \<^verbatim>\<open>["object"]\<close> gives \<^verbatim>\<open>interface{}\<close>.
\<close>

theorem GoType_type_list_counterexample:
  "GoType 5 ex_files ''Json'' (ex_typed (JStr ''array'')) True [] = Ok (''[]string'', [])
   \<and> GoType 5 ex_files ''Json'' (ex_typed (JArr [JStr ''array''])) True [] =
       Panic (NoItems (JsonSchema [] [] ''foo'' (JStr ''array'') [] None (Some []) JNull None None))
   \<and> GoType 5 ex_files ''Json'' (ex_typed (JStr ''object'')) True [] =
       Ok (''JsonFoo'', [(''JsonFoo'', ex_body_x)])
   \<and> GoType 5 ex_files ''Json'' (ex_typed (JArr [JStr ''object''])) True [] =
       Ok (''interface{}'', [])"
  by code_simp


subsection \<open>Who writes the registry\<close>

text \<open>
  Claim C10, as amended. Let \<open>js'\<close> be the node that \<^verbatim>\<open>LoadRef\<close> leaves and let \<^verbatim>\<open>GoType\<close>
  return on it. A scalar keyword, a type list, and an object without properties and
  without additional properties leave the registry as it was. For an object without
  properties and with additional properties, and for an array, the registry returned is
  the one that the synthesis of the nested node (the additional properties, the items)
  returns: the node adds no entry of its own, whatever its title is, and what is added
  comes from nodes below it.
\<close>

theorem GoType_registry_frame:
  assumes "LoadRef n fs js = Ok js'" and "GoType (Suc n) fs pre js c reg = Ok (s, reg')"
  shows "(Type js' \<in> JStr ` {''any'', ''boolean'', ''integer'', ''number'', ''string''} \<longrightarrow> reg' = reg)
    \<and> (\<forall>ts. Type js' = JArr ts \<longrightarrow> reg' = reg)
    \<and> (Type js' = JStr ''object'' \<and> props_of js' = [] \<and> AdditionalProperties js' = None \<longrightarrow>
          reg' = reg)
    \<and> (\<forall>ap. Type js' = JStr ''object'' \<and> props_of js' = [] \<and> AdditionalProperties js' = Some ap \<longrightarrow>
          (\<exists>t. GoType n fs pre ap True reg = Ok (t, reg')))
    \<and> (\<forall>it. Type js' = JStr ''array'' \<and> Items js' = Some it \<longrightarrow>
          (\<exists>t. GoType n fs pre it True reg = Ok (t, reg')))"
proof (intro conjI allI impI)
  assume "Type js' \<in> JStr ` {''any'', ''boolean'', ''integer'', ''number'', ''string''}"
  then show "reg' = reg"
    using assms(2) GoType_scalar [OF assms(1), of pre c reg] by (auto simp del: GoType.simps)
next
  fix ts assume t: "Type js' = JArr ts"
  note eq = GoType_list [OF assms(1) t, of pre c reg]
  show "reg' = reg"
  proof (cases "length ts \<noteq> 1")
    case True
    with assms(2) show ?thesis by (simp add: eq del: GoType.simps)
  next
    case False
    with assms(2) have "GoType n fs pre (type_node (Title js') (hd ts)) c reg = Ok (s, reg')"
      by (simp add: eq del: GoType.simps)
    from GoType_type_node [OF this] show ?thesis by simp
  qed
next
  assume h: "Type js' = JStr ''object'' \<and> props_of js' = [] \<and> AdditionalProperties js' = None"
  then have "GoType (Suc n) fs pre js c reg = Ok (''interface{}'', reg)"
    using GoType_object_empty [OF assms(1), of pre c reg] by (simp del: GoType.simps)
  with assms(2) show "reg' = reg" by (simp del: GoType.simps)
next
  fix ap
  assume h: "Type js' = JStr ''object'' \<and> props_of js' = [] \<and> AdditionalProperties js' = Some ap"
  then have "GoType (Suc n) fs pre js c reg =
      bind_r (GoType n fs pre ap True reg) (\<lambda>(s, r). Ok (''map[string]'' @ s, r))"
    using GoType_object_empty [OF assms(1), of pre c reg] by (simp del: GoType.simps)
  with assms(2) show "\<exists>t. GoType n fs pre ap True reg = Ok (t, reg')"
    by (auto simp add: bind_r_eq_Ok simp del: GoType.simps)
next
  fix it
  assume h: "Type js' = JStr ''array'' \<and> Items js' = Some it"
  then have "GoType (Suc n) fs pre js c reg =
      bind_r (GoType n fs pre it True reg) (\<lambda>(s, r). Ok (''[]'' @ s, r))"
    using GoType_array [OF assms(1), of pre c reg] by (simp del: GoType.simps)
  with assms(2) show "\<exists>t. GoType n fs pre it True reg = Ok (t, reg')"
    by (auto simp add: bind_r_eq_Ok simp del: GoType.simps)
qed

theorem GoType_registry_frame_witness:
  "LoadRef 4 ex_files (ex_array_of (ex_typed (JStr ''object''))) =
     Ok (JsonSchema [] [] [] (JStr ''array'') [] None (Some []) JNull None
           (Some (ex_typed (JStr ''object''))))
   \<and> GoType (Suc 4) ex_files ''Json'' (ex_array_of (ex_typed (JStr ''object''))) True [] =
       Ok (''[]JsonFoo'', [(''JsonFoo'', ex_body_x)])
   \<and> GoType 4 ex_files ''Json'' (ex_typed (JStr ''object'')) True [] =
       Ok (''JsonFoo'', [(''JsonFoo'', ex_body_x)])
   \<and> LoadRef 4 ex_files (ex_bag JNull) = Ok (ex_bag_resolved JNull None)
   \<and> GoType (Suc 4) ex_files ''Json'' (ex_bag JNull) True [(''JsonFoo'', ex_body_x)] =
       Ok (''interface{}'', [(''JsonFoo'', ex_body_x)])"
proof -
  let ?res = "JsonSchema [] [] [] (JStr ''array'') [] None (Some []) JNull None
           (Some (ex_typed (JStr ''object'')))"
  have h1: "LoadRef 4 ex_files (ex_array_of (ex_typed (JStr ''object''))) = Ok ?res"
    by code_simp
  have h2: "GoType (Suc 4) ex_files ''Json'' (ex_array_of (ex_typed (JStr ''object''))) True [] =
       Ok (''[]JsonFoo'', [(''JsonFoo'', ex_body_x)])"
    by code_simp
  have k1: "LoadRef 4 ex_files (ex_bag JNull) = Ok (ex_bag_resolved JNull None)"
    by code_simp
  have k2: "GoType (Suc 4) ex_files ''Json'' (ex_bag JNull) True [(''JsonFoo'', ex_body_x)] =
       Ok (''interface{}'', [(''JsonFoo'', ex_body_x)])"
    by code_simp
  have g: "GoType 4 ex_files ''Json'' (ex_typed (JStr ''object'')) True [] =
       Ok (''JsonFoo'', [(''JsonFoo'', ex_body_x)])"
    by code_simp
  from GoType_registry_frame [OF h1 h2]
  have "\<exists>t. GoType 4 ex_files ''Json'' (ex_typed (JStr ''object'')) True [] =
       Ok (t, [(''JsonFoo'', ex_body_x)])"
    by simp
  moreover from GoType_registry_frame [OF k1 k2]
  have "[(''JsonFoo'', ex_body_x)] = [(''JsonFoo'', ex_body_x)]"
    by simp
  ultimately show ?thesis using h1 h2 k1 k2 g by simp
qed

text \<open>
  Claim C10 as stated fails: an array whose items are a titled object with a property,
  and an object without properties whose additional properties are such an object, both
  return a registry with the entry \<^verbatim>\<open>JsonFoo\<close>, starting from the empty one.
\<close>

theorem GoType_registry_frame_counterexample:
  "GoType 5 ex_files ''Json'' (ex_array_of (ex_typed (JStr ''object''))) True [] =
     Ok (''[]JsonFoo'', [(''JsonFoo'', ex_body_x)])
   \<and> [(''JsonFoo'', ex_body_x)] \<noteq> ([] :: registry)
   \<and> GoType 8 ex_files ''Json''
        (ex_bag (JObj [(''title'', JStr ''foo''), (''type'', JStr ''object''),
                       (''properties'', JObj [(''x'', JObj [(''type'', JStr ''string'')])])]))
        True [] =
     Ok (''map[string]JsonFoo'', [(''JsonFoo'', ex_body_x)])"
  by code_simp

subsection \<open>Struct bodies, sorted keys and names\<close>

lemma fields_Ok:
  "fields g ps ks src reg = Ok (body, reg') \<Longrightarrow>
     \<exists>ts. length ts = length ks \<and> body = src @ concat (map2 field_line ks ts)
       \<and> (\<forall>i<length ks. \<exists>ch r r'. map_of ps (ks ! i) = Some (Some ch) \<and> g ch r = Ok (ts ! i, r'))"
proof (induction ks arbitrary: src reg)
  case Nil
  then show ?case by simp
next
  case (Cons k ks)
  from Cons.prems obtain ch where ch: "map_of ps k = Some (Some ch)"
    by (auto split: option.splits)
  with Cons.prems obtain t r1 where
    g: "g ch reg = Ok (t, r1)" and
    rest: "fields g ps ks (src @ field_line k t) r1 = Ok (body, reg')"
    by (auto simp: bind_r_eq_Ok)
  from Cons.IH [OF rest] obtain ts where
    len: "length ts = length ks" and
    body: "body = (src @ field_line k t) @ concat (map2 field_line ks ts)" and
    each: "\<forall>i<length ks. \<exists>ch r r'. map_of ps (ks ! i) = Some (Some ch) \<and> g ch r = Ok (ts ! i, r')"
    by blast
  have "\<forall>i<length (k # ks). \<exists>ch r r'.
          map_of ps ((k # ks) ! i) = Some (Some ch) \<and> g ch r = Ok ((t # ts) ! i, r')"
  proof (intro allI impI)
    fix i assume "i < length (k # ks)"
    then show "\<exists>ch r r'. map_of ps ((k # ks) ! i) = Some (Some ch) \<and> g ch r = Ok ((t # ts) ! i, r')"
      using ch g each by (cases i) auto
  qed
  moreover have "length (t # ts) = length (k # ks)" using len by simp
  moreover have "body = src @ concat (map2 field_line (k # ks) (t # ts))" using body by simp
  ultimately show ?case by blast
qed

lemma SortedKeys_set: "SortedKeys m = sorted_list_of_set (fst ` set m)"
proof -
  have "sort (map fst (AList.clearjunk m)) = sort (remdups (map fst (AList.clearjunk m)))"
    by (simp add: distinct_remdups_id)
  also have "\<dots> = sorted_list_of_set (set (map fst (AList.clearjunk m)))"
    by (simp only: sorted_list_of_set_sort_remdups)
  also have "set (map fst (AList.clearjunk m)) = fst ` set m"
    by (simp add: dom_clearjunk)
  finally show ?thesis by (simp add: SortedKeys_def MapKeys_def)
qed

lemma SortedKeys_strict: "sorted_wrt (<) (SortedKeys m)"
  by (simp add: SortedKeys_set)

lemma drain_names: "map fst (drain r) = SortedKeys r"
  by (simp add: drain_def comp_def)

lemma drain_entry:
  assumes "e \<in> set (drain r)"
  shows "\<exists>b. map_of r (fst e) = Some b \<and> snd e = ''type '' @ fst e @ '' '' @ b"
proof -
  from assms obtain name where n: "name \<in> set (SortedKeys r)"
    and e: "e = (name, ''type '' @ name @ '' '' @ index_str r name)"
    by (auto simp: drain_def)
  from n have "name \<in> fst ` set r" by (simp add: SortedKeys_set)
  then obtain b where "map_of r name = Some b"
    by (metis domD dom_map_of_conv_image_fst)
  with e show ?thesis by (simp add: index_str_def)
qed

lemma Split_sp_not_Nil: "Split_sp xs \<noteq> []"
  by (induction xs) (auto split: list.splits)

lemma Split_sp_space: "Split_sp (u @ CHR '' '' # v) = Split_sp u @ Split_sp v"
proof (induction u)
  case Nil
  show ?case by simp
next
  case (Cons a u)
  obtain w ws where "Split_sp u = w # ws"
    using Split_sp_not_Nil [of u] by (cases "Split_sp u") auto
  with Cons show ?case by simp
qed

lemma Split_sp_word: "CHR '' '' \<notin> set w \<Longrightarrow> Split_sp w = [w]"
  by (induction w) auto

lemma Capitalize_Nil: "Capitalize [] = []"
  by (simp add: Capitalize_def)

lemma Capitalize_space: "Capitalize (u @ '' '' @ v) = Capitalize u @ Capitalize v"
  by (simp add: Capitalize_def Split_sp_space)

lemma Capitalize_word: "CHR '' '' \<notin> set (ch # w) \<Longrightarrow> Capitalize (ch # w) = ToUpper1 ch @ w"
  using Split_sp_word [of "ch # w"] by (simp add: Capitalize_def)

lemma main_Ok_drain: "main m fs pre a = Ok ds \<Longrightarrow> \<exists>reg. ds = drain reg"
  by (auto simp: main_def bind_r_eq_Ok)


lemma GoType_object_result:
  assumes "LoadRef n fs js = Ok js'" and "Type js' = JStr ''object''" and "props_of js' \<noteq> []"
    and "fields (\<lambda>ch r. GoType n fs pre ch True r) (props_of js')
           (SortedKeys (props_of js')) (''struct {'' @ [nl]) reg = Ok (body, reg1)"
  shows "Capitalize (Title js') \<noteq> [] \<Longrightarrow>
            GoType (Suc n) fs pre js c reg =
              Ok (if c then pre @ Capitalize (Title js') else body @ ''}'',
                  AList.update (pre @ Capitalize (Title js')) (body @ ''}'') reg1)"
    and "Capitalize (Title js') = [] \<Longrightarrow> GoType (Suc n) fs pre js c reg = Ok (body @ ''}'', reg1)"
proof -
  note eq = GoType_object_fields [OF assms(1,2,3), of pre c reg]
  show "GoType (Suc n) fs pre js c reg =
              Ok (if c then pre @ Capitalize (Title js') else body @ ''}'',
                  AList.update (pre @ Capitalize (Title js')) (body @ ''}'') reg1)"
    if "Capitalize (Title js') \<noteq> []"
    unfolding eq assms(4) using that by simp
  show "GoType (Suc n) fs pre js c reg = Ok (body @ ''}'', reg1)"
    if "Capitalize (Title js') = []"
    unfolding eq assms(4) using that by simp
qed

subsection \<open>Registration\<close>

text \<open>
  Claim C1, as amended. Let \<open>js'\<close> be the node that \<^verbatim>\<open>LoadRef\<close> leaves, an object with
  properties, and let the loop over its fields return the body and the registry \<open>reg1\<close>.
  When the capitalized title is not empty, the body is stored under the prefixed name
  whatever \<open>reg1\<close> holds there, so the last registration of a name is the one kept, and
  every other name keeps its entry; the result is the name under collapse and the body
  otherwise. When the capitalized title is empty, as it is for an empty title, nothing is
  stored and the body is returned.
\<close>

theorem GoType_registers_last:
  assumes "LoadRef n fs js = Ok js'" and "Type js' = JStr ''object''" and "props_of js' \<noteq> []"
    and "fields (\<lambda>ch r. GoType n fs pre ch True r) (props_of js')
           (SortedKeys (props_of js')) (''struct {'' @ [nl]) reg = Ok (body, reg1)"
  shows "(Capitalize (Title js') \<noteq> [] \<longrightarrow>
            GoType (Suc n) fs pre js c reg =
              Ok (if c then pre @ Capitalize (Title js') else body @ ''}'',
                  AList.update (pre @ Capitalize (Title js')) (body @ ''}'') reg1)
            \<and> map_of (AList.update (pre @ Capitalize (Title js')) (body @ ''}'') reg1)
                 (pre @ Capitalize (Title js')) = Some (body @ ''}'')
            \<and> (\<forall>k. k \<noteq> pre @ Capitalize (Title js') \<longrightarrow>
                  map_of (AList.update (pre @ Capitalize (Title js')) (body @ ''}'') reg1) k =
                    map_of reg1 k))
    \<and> (Capitalize (Title js') = [] \<longrightarrow> GoType (Suc n) fs pre js c reg = Ok (body @ ''}'', reg1))
    \<and> (Title js' = [] \<longrightarrow> Capitalize (Title js') = [])"
  using GoType_object_result [OF assms, of c]
  by (simp add: update_conv' Capitalize_Nil del: GoType.simps)

theorem GoType_registers_last_witness:
  "LoadRef 3 ex_files ex_foo_x = Ok ex_foo_x
   \<and> GoType (Suc 3) ex_files ''Json'' ex_foo_x True [(''JsonFoo'', ex_body_y)] =
       Ok (''JsonFoo'', [(''JsonFoo'', ex_body_x)])
   \<and> LoadRef 4 ex_files ex_two = Ok ex_two
   \<and> GoType (Suc 4) ex_files ''Json'' ex_two True [] = Ok (ex_body_two, [(''JsonFoo'', ex_body_x)])"
proof -
  have h1: "LoadRef 3 ex_files ex_foo_x = Ok ex_foo_x"
    by code_simp
  have h2: "Type ex_foo_x = JStr ''object''"
    by (simp add: ex_foo_x_def obj_def)
  have h3: "props_of ex_foo_x \<noteq> []"
    by (simp add: ex_foo_x_def obj_def props_of_def)
  have h4: "fields (\<lambda>ch r. GoType 3 ex_files ''Json'' ch True r) (props_of ex_foo_x)
           (SortedKeys (props_of ex_foo_x)) (''struct {'' @ [nl]) [(''JsonFoo'', ex_body_y)] =
         Ok (''struct {'' @ [nl] @ field_line ''x'' ''string'', [(''JsonFoo'', ex_body_y)])"
    by code_simp
  have c1: "Capitalize (Title ex_foo_x) = ''Foo''"
    by code_simp
  have u1: "AList.update ''JsonFoo'' ex_body_x [(''JsonFoo'', ex_body_y)] = [(''JsonFoo'', ex_body_x)]"
    by simp
  have b1: "(''struct {'' @ [nl] @ field_line ''x'' ''string'') @ ''}'' = ex_body_x"
    by (simp add: ex_body_x_def)
  have k1: "LoadRef 4 ex_files ex_two = Ok ex_two"
    by code_simp
  have k2: "Type ex_two = JStr ''object''"
    by (simp add: ex_two_def obj_def)
  have k3: "props_of ex_two \<noteq> []"
    by (simp add: ex_two_def obj_def props_of_def)
  have k4: "fields (\<lambda>ch r. GoType 4 ex_files ''Json'' ch True r) (props_of ex_two)
           (SortedKeys (props_of ex_two)) (''struct {'' @ [nl]) [] =
         Ok (''struct {'' @ [nl] @ field_line ''a'' ''JsonFoo'' @ field_line ''b'' ''JsonFoo'',
             [(''JsonFoo'', ex_body_x)])"
    by code_simp
  have c2: "Capitalize (Title ex_two) = []"
    by code_simp
  have b2: "(''struct {'' @ [nl] @ field_line ''a'' ''JsonFoo'' @ field_line ''b'' ''JsonFoo'') @ ''}''
      = ex_body_two"
    by (simp add: ex_body_two_def)
  from GoType_registers_last [OF h1 h2 h3 h4, of True]
  have "GoType (Suc 3) ex_files ''Json'' ex_foo_x True [(''JsonFoo'', ex_body_y)] =
       Ok (''JsonFoo'', [(''JsonFoo'', ex_body_x)])"
    unfolding c1 b1 using u1 by (simp del: GoType.simps)
  moreover from GoType_registers_last [OF k1 k2 k3 k4, of True]
  have "GoType (Suc 4) ex_files ''Json'' ex_two True [] = Ok (ex_body_two, [(''JsonFoo'', ex_body_x)])"
    unfolding c2 b2 by (simp del: GoType.simps)
  ultimately show ?thesis using h1 k1 by simp
qed

text \<open>
  Claim C1 as stated fails: two objects titled \<^verbatim>\<open>foo\<close> with different properties. The first
  registers its body under \<^verbatim>\<open>JsonFoo\<close>; synthesizing the second in that registry replaces
  the entry with the second body; and the whole document ends with the body registered
  last.
\<close>

theorem GoType_registers_last_counterexample:
  "GoType 4 ex_files ''Json'' ex_foo_y True [] = Ok (''JsonFoo'', [(''JsonFoo'', ex_body_y)])
   \<and> GoType 4 ex_files ''Json'' ex_foo_x True [(''JsonFoo'', ex_body_y)] =
       Ok (''JsonFoo'', [(''JsonFoo'', ex_body_x)])
   \<and> ex_body_x \<noteq> ex_body_y
   \<and> GoType 5 ex_files ''Json'' ex_two True [] = Ok (ex_body_two, [(''JsonFoo'', ex_body_x)])"
  by code_simp


lemma fields_map_of:
  assumes "map_of ps' = map_of ps"
  shows "fields g ps' ks src reg = fields g ps ks src reg"
proof (induction ks arbitrary: src reg)
  case Nil
  show ?case by simp
next
  case (Cons k ks)
  have "(\<lambda>(t, y). fields g ps' ks (src @ field_line k t) y) =
        (\<lambda>(t, y). fields g ps ks (src @ field_line k t) y)"
    by (simp only: Cons.IH)
  then show ?case
    by (simp only: fields.simps assms)
qed

lemma SortedKeys_map_of:
  assumes "map_of ps' = map_of ps"
  shows "SortedKeys ps' = SortedKeys ps"
proof -
  have "dom (map_of ps') = dom (map_of ps)" by (simp only: assms)
  then have "fst ` set ps' = fst ` set ps" by (simp only: dom_map_of_conv_image_fst)
  then show ?thesis by (simp only: SortedKeys_set)
qed

subsection \<open>Field order\<close>

text \<open>
  Claim C4, as amended. Let \<open>js'\<close> be the node that \<^verbatim>\<open>LoadRef\<close> leaves, an object with
  properties, and let \<^verbatim>\<open>GoType\<close> return. The struct body, which is the result or the
  registered entry, is \<^verbatim>\<open>struct {\<close>, one line for each key and \<^verbatim>\<open>}\<close>; the keys are the sorted
  list of the set of keys, strictly ascending, and another listing of the same mapping
  gives the same loop; the type on the line of a key is what \<^verbatim>\<open>GoType\<close> with collapse set
  returns on the property of that key; the line is the capitalized key, the type and the
  tag with the key as it is.

  \<^verbatim>\<open>Capitalize\<close> is fixed by three equations: the single space, and no other character,
  separates words and is dropped; a word without space has its first byte replaced by
  what \<^verbatim>\<open>ToUpper\<close> makes of it; the empty string stays. On the first byte, each of the
  letters a to z, which are the bytes 97 to 122, gives the same letter in upper case, and
  every other byte below 128 stays.

  \<^verbatim>\<open>main\<close> returns exactly when the synthesis of the entry document returns, and then with
  the drain of the registry that the synthesis returned. The drain of a registry has one
  declaration for each registered name, in strictly ascending order of the names, each
  with the body registered under its name.
\<close>

theorem GoType_struct_fields:
  assumes "LoadRef n fs js = Ok js'" and "Type js' = JStr ''object''" and "props_of js' \<noteq> []"
    and "GoType (Suc n) fs pre js c reg = Ok (t, reg')"
  shows "(\<exists>ts. length ts = length (SortedKeys (props_of js'))
      \<and> (\<forall>i<length ts. \<exists>ch r r'.
            map_of (props_of js') (SortedKeys (props_of js') ! i) = Some (Some ch)
            \<and> GoType n fs pre ch True r = Ok (ts ! i, r'))
      \<and> (if Capitalize (Title js') \<noteq> [] then
            map_of reg' (pre @ Capitalize (Title js')) =
              Some (''struct {'' @ [nl] @ concat (map2 field_line (SortedKeys (props_of js')) ts) @ ''}'')
            \<and> t = (if c then pre @ Capitalize (Title js')
                    else ''struct {'' @ [nl]
                         @ concat (map2 field_line (SortedKeys (props_of js')) ts) @ ''}'')
          else t = ''struct {'' @ [nl]
                   @ concat (map2 field_line (SortedKeys (props_of js')) ts) @ ''}''))
    \<and> SortedKeys (props_of js') = sorted_list_of_set (fst ` set (props_of js'))
    \<and> sorted_wrt (<) (SortedKeys (props_of js'))
    \<and> (\<forall>ps'. map_of ps' = map_of (props_of js') \<longrightarrow>
          fields (\<lambda>ch r. GoType n fs pre ch True r) ps' (SortedKeys ps') (''struct {'' @ [nl]) reg =
          fields (\<lambda>ch r. GoType n fs pre ch True r) (props_of js')
            (SortedKeys (props_of js')) (''struct {'' @ [nl]) reg)
    \<and> (\<forall>k u. field_line k u = Capitalize k @ '' '' @ u @ '' '' @ [bq] @ ''json:'' @ [dq] @ k @ [dq, bq, nl])
    \<and> Capitalize [] = []
    \<and> (\<forall>u v. Capitalize (u @ '' '' @ v) = Capitalize u @ Capitalize v)
    \<and> (\<forall>ch w. CHR '' '' \<notin> set (ch # w) \<longrightarrow> Capitalize (ch # w) = ToUpper1 ch @ w)
    \<and> map ToUpper1 ''abcdefghijklmnopqrstuvwxyz'' =
        map (\<lambda>ch. [ch]) ''ABCDEFGHIJKLMNOPQRSTUVWXYZ''
    \<and> map of_char ''abcdefghijklmnopqrstuvwxyz'' = [97..<123 :: nat]
    \<and> (\<forall>ch. (of_char ch :: nat) < 128
            \<and> \<not> (97 \<le> (of_char ch :: nat) \<and> (of_char ch :: nat) \<le> 122) \<longrightarrow>
          ToUpper1 ch = [ch])
    \<and> (\<forall>m a ds. main m fs pre a = Ok ds \<longleftrightarrow>
          (\<exists>t r. main_synth m fs pre a = Ok (t, r) \<and> ds = drain r))
    \<and> (\<forall>r. map fst (drain r) = sorted_list_of_set (fst ` set r)
          \<and> sorted_wrt (<) (map fst (drain r))
          \<and> length (drain r) = card (fst ` set r)
          \<and> (\<forall>e \<in> set (drain r). \<exists>b. map_of r (fst e) = Some b
                                      \<and> snd e = ''type '' @ fst e @ '' '' @ b))"
proof -
  note eq = GoType_object_fields [OF assms(1,2,3), of pre c reg]
  from assms(4) [unfolded eq] obtain body reg1 where
    f: "fields (\<lambda>ch r. GoType n fs pre ch True r) (props_of js')
           (SortedKeys (props_of js')) (''struct {'' @ [nl]) reg = Ok (body, reg1)"
    by (auto simp: bind_r_eq_Ok)
  from fields_Ok [OF f] obtain ts where
    len: "length ts = length (SortedKeys (props_of js'))" and
    body: "body = (''struct {'' @ [nl]) @ concat (map2 field_line (SortedKeys (props_of js')) ts)" and
    each: "\<forall>i<length (SortedKeys (props_of js')). \<exists>ch r r'.
            map_of (props_of js') (SortedKeys (props_of js') ! i) = Some (Some ch)
            \<and> GoType n fs pre ch True r = Ok (ts ! i, r')"
    by blast
  note reg = GoType_object_result [OF assms(1,2,3) f, of c]
  have src: "body @ ''}'' =
      ''struct {'' @ [nl] @ concat (map2 field_line (SortedKeys (props_of js')) ts) @ ''}''"
    by (simp add: body)
  have res: "if Capitalize (Title js') \<noteq> [] then
            map_of reg' (pre @ Capitalize (Title js')) = Some (body @ ''}'')
            \<and> t = (if c then pre @ Capitalize (Title js') else body @ ''}'')
          else t = body @ ''}''"
  proof (cases "Capitalize (Title js') = []")
    case True
    with reg assms(4) show ?thesis by (simp del: GoType.simps)
  next
    case False
    with reg assms(4) have
      "t = (if c then pre @ Capitalize (Title js') else body @ ''}'')"
      "reg' = AList.update (pre @ Capitalize (Title js')) (body @ ''}'') reg1"
      by (simp_all del: GoType.simps)
    with False show ?thesis by (simp add: update_conv')
  qed
  have first: "\<exists>ts. length ts = length (SortedKeys (props_of js'))
      \<and> (\<forall>i<length ts. \<exists>ch r r'.
            map_of (props_of js') (SortedKeys (props_of js') ! i) = Some (Some ch)
            \<and> GoType n fs pre ch True r = Ok (ts ! i, r'))
      \<and> (if Capitalize (Title js') \<noteq> [] then
            map_of reg' (pre @ Capitalize (Title js')) =
              Some (''struct {'' @ [nl] @ concat (map2 field_line (SortedKeys (props_of js')) ts) @ ''}'')
            \<and> t = (if c then pre @ Capitalize (Title js')
                    else ''struct {'' @ [nl]
                         @ concat (map2 field_line (SortedKeys (props_of js')) ts) @ ''}'')
          else t = ''struct {'' @ [nl]
                   @ concat (map2 field_line (SortedKeys (props_of js')) ts) @ ''}'')"
    using len each res unfolding src by (intro exI [of _ ts]) (simp del: GoType.simps)
  have up: "map ToUpper1 ''abcdefghijklmnopqrstuvwxyz'' =
        map (\<lambda>ch. [ch]) ''ABCDEFGHIJKLMNOPQRSTUVWXYZ''"
    by code_simp
  have codes: "map of_char ''abcdefghijklmnopqrstuvwxyz'' = [97..<123 :: nat]"
    by code_simp
  have other: "\<forall>ch. (of_char ch :: nat) < 128
            \<and> \<not> (97 \<le> (of_char ch :: nat) \<and> (of_char ch :: nat) \<le> 122) \<longrightarrow>
          ToUpper1 ch = [ch]"
    by (simp add: ToUpper1_def Let_def)
  have runs: "\<forall>m a ds. main m fs pre a = Ok ds \<longleftrightarrow>
          (\<exists>t r. main_synth m fs pre a = Ok (t, r) \<and> ds = drain r)"
    by (auto simp: main_def bind_r_eq_Ok)
  have outs: "\<forall>r. map fst (drain r) = sorted_list_of_set (fst ` set r)
          \<and> sorted_wrt (<) (map fst (drain r))
          \<and> length (drain r) = card (fst ` set r)
          \<and> (\<forall>e \<in> set (drain r). \<exists>b. map_of r (fst e) = Some b
                                      \<and> snd e = ''type '' @ fst e @ '' '' @ b)"
  proof (intro allI conjI)
    fix r :: registry
    show "map fst (drain r) = sorted_list_of_set (fst ` set r)"
      by (simp only: drain_names SortedKeys_set)
    show "sorted_wrt (<) (map fst (drain r))"
      by (simp only: drain_names SortedKeys_strict)
    have "length (drain r) = length (map fst (drain r))"
      by simp
    also have "\<dots> = length (sorted_list_of_set (fst ` set r))"
      by (simp only: drain_names SortedKeys_set)
    also have "\<dots> = card (fst ` set r)"
      by simp
    finally show "length (drain r) = card (fst ` set r)" .
    show "\<forall>e \<in> set (drain r). \<exists>b. map_of r (fst e) = Some b
                                      \<and> snd e = ''type '' @ fst e @ '' '' @ b"
      using drain_entry by blast
  qed
  have fl: "\<forall>k u. field_line k u =
      Capitalize k @ '' '' @ u @ '' '' @ [bq] @ ''json:'' @ [dq] @ k @ [dq, bq, nl]"
    by (simp add: field_line_def)
  have perm: "\<forall>ps'. map_of ps' = map_of (props_of js') \<longrightarrow>
          fields (\<lambda>ch r. GoType n fs pre ch True r) ps' (SortedKeys ps') (''struct {'' @ [nl]) reg =
          fields (\<lambda>ch r. GoType n fs pre ch True r) (props_of js')
            (SortedKeys (props_of js')) (''struct {'' @ [nl]) reg"
  proof (intro allI impI)
    fix ps' :: "(string \<times> JsonSchema option) list"
    assume h: "map_of ps' = map_of (props_of js')"
    show "fields (\<lambda>ch r. GoType n fs pre ch True r) ps' (SortedKeys ps') (''struct {'' @ [nl]) reg =
          fields (\<lambda>ch r. GoType n fs pre ch True r) (props_of js')
            (SortedKeys (props_of js')) (''struct {'' @ [nl]) reg"
      by (simp only: fields_map_of [OF h] SortedKeys_map_of [OF h])
  qed
  have cs: "\<forall>u v. Capitalize (u @ '' '' @ v) = Capitalize u @ Capitalize v"
    using Capitalize_space by (intro allI)
  have cw: "\<forall>ch w. CHR '' '' \<notin> set (ch # w) \<longrightarrow> Capitalize (ch # w) = ToUpper1 ch @ w"
    using Capitalize_word by (intro allI impI)
  show ?thesis
    using first SortedKeys_set [of "props_of js'"] SortedKeys_strict [of "props_of js'"] perm fl
      Capitalize_Nil cs cw up codes other runs outs
    by (intro conjI) assumption+
qed


theorem GoType_struct_fields_witness:
  "LoadRef 4 ex_files ex_two = Ok ex_two
   \<and> Type ex_two = JStr ''object''
   \<and> props_of ex_two = [(''b'', Some ex_foo_x), (''a'', Some ex_foo_y)]
   \<and> GoType (Suc 4) ex_files ''Json'' ex_two True [] = Ok (ex_body_two, [(''JsonFoo'', ex_body_x)])
   \<and> SortedKeys (props_of ex_two) = [''a'', ''b'']
   \<and> (\<exists>ts. length ts = length [''a'', ''b'']
         \<and> ex_body_two = ''struct {'' @ [nl] @ concat (map2 field_line [''a'', ''b''] ts) @ ''}'')
   \<and> sorted_wrt (<) [''a'', ''b'']
   \<and> Capitalize ''first  name'' = ''FirstName''
   \<and> main_synth 5 ex_files ''Json'' ''pair.json'' =
       Ok (ex_body_pair, [(''JsonZeta'', ex_body_x), (''JsonAlpha'', ex_body_y)])
   \<and> main 5 ex_files ''Json'' ''pair.json'' =
       Ok [(''JsonAlpha'', ''type JsonAlpha '' @ ex_body_y),
           (''JsonZeta'', ''type JsonZeta '' @ ex_body_x)]
   \<and> drain [(''JsonZeta'', ex_body_x), (''JsonAlpha'', ex_body_y)] =
       [(''JsonAlpha'', ''type JsonAlpha '' @ ex_body_y),
        (''JsonZeta'', ''type JsonZeta '' @ ex_body_x)]"
proof -
  have h1: "LoadRef 4 ex_files ex_two = Ok ex_two"
    by code_simp
  have h2: "Type ex_two = JStr ''object''"
    by (simp add: ex_two_def obj_def)
  have p: "props_of ex_two = [(''b'', Some ex_foo_x), (''a'', Some ex_foo_y)]"
    by (simp add: ex_two_def obj_def props_of_def)
  have h3: "props_of ex_two \<noteq> []"
    by (simp add: p)
  have h4: "GoType (Suc 4) ex_files ''Json'' ex_two True [] =
      Ok (ex_body_two, [(''JsonFoo'', ex_body_x)])"
    by code_simp
  have k: "SortedKeys (props_of ex_two) = [''a'', ''b'']"
    by code_simp
  have c: "Capitalize (Title ex_two) = []"
    by code_simp
  have w: "Capitalize ''first  name'' = ''FirstName''"
    by code_simp
  have ms: "main_synth 5 ex_files ''Json'' ''pair.json'' =
       Ok (ex_body_pair, [(''JsonZeta'', ex_body_x), (''JsonAlpha'', ex_body_y)])"
    by code_simp
  have mp: "main 5 ex_files ''Json'' ''pair.json'' =
       Ok [(''JsonAlpha'', ''type JsonAlpha '' @ ex_body_y),
           (''JsonZeta'', ''type JsonZeta '' @ ex_body_x)]"
    by code_simp
  note t = GoType_struct_fields [OF h1 h2 h3 h4]
  from t have "\<exists>ts. length ts = length (SortedKeys (props_of ex_two))
      \<and> (if Capitalize (Title ex_two) \<noteq> [] then
            map_of [(''JsonFoo'', ex_body_x)] (''Json'' @ Capitalize (Title ex_two)) =
              Some (''struct {'' @ [nl] @ concat (map2 field_line (SortedKeys (props_of ex_two)) ts) @ ''}'')
            \<and> ex_body_two = (if True then ''Json'' @ Capitalize (Title ex_two)
                    else ''struct {'' @ [nl]
                         @ concat (map2 field_line (SortedKeys (props_of ex_two)) ts) @ ''}'')
          else ex_body_two = ''struct {'' @ [nl]
                   @ concat (map2 field_line (SortedKeys (props_of ex_two)) ts) @ ''}'')"
    by blast
  then have r1: "\<exists>ts. length ts = length [''a'', ''b'']
         \<and> ex_body_two = ''struct {'' @ [nl] @ concat (map2 field_line [''a'', ''b''] ts) @ ''}''"
    unfolding k c by simp
  from t have "sorted_wrt (<) (SortedKeys (props_of ex_two))"
    by blast
  then have r2: "sorted_wrt (<) [''a'', ''b'']"
    unfolding k .
  from t have "\<forall>m a ds. main m ex_files ''Json'' a = Ok ds \<longleftrightarrow>
          (\<exists>t r. main_synth m ex_files ''Json'' a = Ok (t, r) \<and> ds = drain r)"
    by blast
  with mp obtain t' r' where "main_synth 5 ex_files ''Json'' ''pair.json'' = Ok (t', r')"
    and "[(''JsonAlpha'', ''type JsonAlpha '' @ ex_body_y),
          (''JsonZeta'', ''type JsonZeta '' @ ex_body_x)] = drain r'"
    by blast
  with ms have r3: "drain [(''JsonZeta'', ex_body_x), (''JsonAlpha'', ex_body_y)] =
       [(''JsonAlpha'', ''type JsonAlpha '' @ ex_body_y),
        (''JsonZeta'', ''type JsonZeta '' @ ex_body_x)]"
    by simp
  from h1 h2 p h4 k r1 r2 w ms mp r3 show ?thesis
    by (intro conjI)
qed

text \<open>
  Claim C4 as stated fails: a tab is whitespace and does not separate words. The key made
  of the letter a, a tab and the letter b gives the field name with the first letter in
  upper case only; the letter after the tab stays as it is.
\<close>

theorem GoType_struct_fields_counterexample:
  "ex_tab_key = [CHR ''a'', CHR 0x09, CHR ''b'']
   \<and> Capitalize ex_tab_key = [CHR ''A'', CHR 0x09, CHR ''b'']
   \<and> GoType 4 ex_files ''Json'' ex_tab_obj True [] =
       Ok (''struct {'' @ [nl] @ [CHR ''A'', CHR 0x09, CHR ''b''] @ '' string '' @ [bq]
             @ ''json:'' @ [dq] @ ex_tab_key @ [dq, bq, nl] @ ''}'', [])"
  by code_simp

subsection \<open>The root\<close>

text \<open>
  Claim C2, as amended. \<^verbatim>\<open>main\<close> synthesizes the decoded entry document with collapse set
  and the empty registry. When the document resolves to an object with properties and a
  capitalized title that is not empty, the type expression computed for the root is the
  prefixed name, and the registry holds the inline body under that name.
\<close>

theorem main_synth_collapses_root:
  assumes "fs arg = Decoded d" and "LoadRef n fs (d zero_schema) = Ok js'"
    and "Type js' = JStr ''object''" and "props_of js' \<noteq> []"
    and "Capitalize (Title js') \<noteq> []"
    and "main_synth (Suc n) fs pre arg = Ok (t, reg)"
  shows "main_synth (Suc n) fs pre arg = GoType (Suc n) fs pre (d zero_schema) True []
    \<and> t = pre @ Capitalize (Title js')
    \<and> (\<exists>body reg1.
          fields (\<lambda>ch r. GoType n fs pre ch True r) (props_of js')
            (SortedKeys (props_of js')) (''struct {'' @ [nl]) [] = Ok (body, reg1)
          \<and> reg = AList.update t (body @ ''}'') reg1
          \<and> map_of reg t = Some (body @ ''}''))"
proof -
  have m: "main_synth (Suc n) fs pre arg = GoType (Suc n) fs pre (d zero_schema) True []"
    using assms(1) by (simp add: main_synth_def LoadRef_file_def del: GoType.simps)
  with assms(6) have g: "GoType (Suc n) fs pre (d zero_schema) True [] = Ok (t, reg)"
    by (simp del: GoType.simps)
  note eq = GoType_object_fields [OF assms(2,3,4), of pre True "[]"]
  from g [unfolded eq] obtain body reg1 where
    f: "fields (\<lambda>ch r. GoType n fs pre ch True r) (props_of js')
           (SortedKeys (props_of js')) (''struct {'' @ [nl]) [] = Ok (body, reg1)"
    by (auto simp: bind_r_eq_Ok)
  from GoType_object_result(1) [OF assms(2,3,4) f assms(5), of True] g
  have "t = pre @ Capitalize (Title js')"
    "reg = AList.update (pre @ Capitalize (Title js')) (body @ ''}'') reg1"
    by (simp_all del: GoType.simps)
  with f m show ?thesis by (auto simp: update_conv' simp del: GoType.simps)
qed

theorem main_synth_collapses_root_witness:
  "ex_files ''foo.json'' = Decoded ex_foo_dec
   \<and> LoadRef 3 ex_files (ex_foo_dec zero_schema) = Ok ex_foo_x
   \<and> Capitalize (Title ex_foo_x) = ''Foo''
   \<and> main_synth (Suc 3) ex_files ''Json'' ''foo.json'' = Ok (''JsonFoo'', [(''JsonFoo'', ex_body_x)])
   \<and> ''JsonFoo'' = ''Json'' @ Capitalize (Title ex_foo_x)
   \<and> map_of [(''JsonFoo'', ex_body_x)] ''JsonFoo'' = Some ex_body_x"
proof -
  have h1: "ex_files ''foo.json'' = Decoded ex_foo_dec"
    by (simp add: ex_files_def)
  have h2: "LoadRef 3 ex_files (ex_foo_dec zero_schema) = Ok ex_foo_x"
    by code_simp
  have h3: "Type ex_foo_x = JStr ''object''"
    by (simp add: ex_foo_x_def obj_def)
  have h4: "props_of ex_foo_x \<noteq> []"
    by (simp add: ex_foo_x_def obj_def props_of_def)
  have c: "Capitalize (Title ex_foo_x) = ''Foo''"
    by code_simp
  then have h5: "Capitalize (Title ex_foo_x) \<noteq> []"
    by simp
  have h6: "main_synth (Suc 3) ex_files ''Json'' ''foo.json'' =
      Ok (''JsonFoo'', [(''JsonFoo'', ex_body_x)])"
    by code_simp
  from main_synth_collapses_root [OF h1 h2 h3 h4 h5 h6]
  have "''JsonFoo'' = ''Json'' @ Capitalize (Title ex_foo_x)"
    by blast
  then show ?thesis using h1 h2 c h6 by simp
qed

text \<open>
  Claim C2 as stated fails: for the entry document \<^verbatim>\<open>foo.json\<close> the root expression is the
  name \<^verbatim>\<open>JsonFoo\<close>; the inline body is what collapse unset would have given.
\<close>

theorem main_synth_collapses_root_counterexample:
  "main_synth 5 ex_files ''Json'' ''foo.json'' = Ok (''JsonFoo'', [(''JsonFoo'', ex_body_x)])
   \<and> GoType 5 ex_files ''Json'' ex_foo_x False [] = Ok (ex_body_x, [(''JsonFoo'', ex_body_x)])
   \<and> ''JsonFoo'' \<noteq> ex_body_x"
  by code_simp

subsection \<open>The bound on the depth of calls\<close>

text \<open>
  A result reached within a bound is the result within every larger bound: a value or a
  panic does not depend on the bound, which only decides whether the run is followed to
  its end.
\<close>

lemma bind_r_more:
  assumes "bind_r m f \<noteq> OutOfFuel"
    and "m \<noteq> OutOfFuel \<Longrightarrow> m' = m"
    and "\<And>x. m = Ok x \<Longrightarrow> f x \<noteq> OutOfFuel \<Longrightarrow> f' x = f x"
  shows "bind_r m' f' = bind_r m f"
  using assms by (cases m) auto

lemma props_loop_more:
  assumes "\<And>v. g v \<noteq> OutOfFuel \<Longrightarrow> g' v = g v"
  shows "props_loop g kvs acc \<noteq> OutOfFuel \<Longrightarrow> props_loop g' kvs acc = props_loop g kvs acc"
proof (induction kvs arbitrary: acc)
  case Nil
  show ?case by simp
next
  case (Cons kv kvs)
  then show ?case using assms [of "snd kv"] by (cases "g (snd kv)") auto
qed

lemma fields_more:
  assumes "\<And>ch r. g ch r \<noteq> OutOfFuel \<Longrightarrow> g' ch r = g ch r"
  shows "fields g ps ks src reg \<noteq> OutOfFuel \<Longrightarrow> fields g' ps ks src reg = fields g ps ks src reg"
proof (induction ks arbitrary: src reg)
  case Nil
  show ?case by simp
next
  case (Cons k ks)
  show ?case
  proof (cases "map_of ps k")
    case None
    then show ?thesis by simp
  next
    case (Some o1)
    show ?thesis
    proof (cases o1)
      case None
      with Some show ?thesis by simp
    next
      case (Some ch)
      with \<open>map_of ps k = Some o1\<close> Cons.prems
      have ne: "bind_r (g ch reg) (\<lambda>(t, reg'). fields g ps ks (src @ field_line k t) reg') \<noteq> OutOfFuel"
        by simp
      have "bind_r (g' ch reg) (\<lambda>(t, reg'). fields g' ps ks (src @ field_line k t) reg') =
            bind_r (g ch reg) (\<lambda>(t, reg'). fields g ps ks (src @ field_line k t) reg')"
        using ne
      proof (rule bind_r_more)
        show "g ch reg \<noteq> OutOfFuel \<Longrightarrow> g' ch reg = g ch reg" by (rule assms)
      next
        fix x assume "g ch reg = Ok x"
          and "(case x of (t, reg') \<Rightarrow> fields g ps ks (src @ field_line k t) reg') \<noteq> OutOfFuel"
        then show "(case x of (t, reg') \<Rightarrow> fields g' ps ks (src @ field_line k t) reg') =
                   (case x of (t, reg') \<Rightarrow> fields g ps ks (src @ field_line k t) reg')"
          using Cons.IH by (cases x) simp
      qed
      with Some \<open>map_of ps k = Some o1\<close> show ?thesis by simp
    qed
  qed
qed

lemma resolution_more:
  "(\<forall>fs v. SchemaFromInterface n fs v \<noteq> OutOfFuel \<longrightarrow>
       SchemaFromInterface (Suc n) fs v = SchemaFromInterface n fs v)
   \<and> (\<forall>fs js. LoadRef n fs js \<noteq> OutOfFuel \<longrightarrow> LoadRef (Suc n) fs js = LoadRef n fs js)"
proof (induction n)
  case 0
  show ?case by simp
next
  case (Suc n)
  then have s: "\<And>fs v. SchemaFromInterface n fs v \<noteq> OutOfFuel \<Longrightarrow>
       SchemaFromInterface (Suc n) fs v = SchemaFromInterface n fs v"
    and l: "\<And>fs js. LoadRef n fs js \<noteq> OutOfFuel \<Longrightarrow> LoadRef (Suc n) fs js = LoadRef n fs js"
    by blast+
  have sfi: "SchemaFromInterface (Suc (Suc n)) fs v = SchemaFromInterface (Suc n) fs v"
    if ne: "SchemaFromInterface (Suc n) fs v \<noteq> OutOfFuel" for fs v
  proof (cases v)
    case (JObj m)
    have pl: "props_loop (\<lambda>v. SchemaFromInterface (Suc n) fs v) kvs acc =
              props_loop (\<lambda>v. SchemaFromInterface n fs v) kvs acc"
      if "props_loop (\<lambda>v. SchemaFromInterface n fs v) kvs acc \<noteq> OutOfFuel" for kvs acc
      using that by (rule props_loop_more [rotated]) (rule s)
    have pr: "(case map_of m ''properties'' of
               None \<Rightarrow> Ok None
             | Some (JObj pm) \<Rightarrow>
                 bind_r (props_loop (\<lambda>v. SchemaFromInterface (Suc n) fs v) (AList.clearjunk pm) [])
                   (\<lambda>ps. Ok (Some ps))
             | Some _ \<Rightarrow> Panic BadAssertion) =
          (case map_of m ''properties'' of
               None \<Rightarrow> Ok None
             | Some (JObj pm) \<Rightarrow>
                 bind_r (props_loop (\<lambda>v. SchemaFromInterface n fs v) (AList.clearjunk pm) [])
                   (\<lambda>ps. Ok (Some ps))
             | Some _ \<Rightarrow> Panic BadAssertion)"
      if "(case map_of m ''properties'' of
               None \<Rightarrow> Ok None
             | Some (JObj pm) \<Rightarrow>
                 bind_r (props_loop (\<lambda>v. SchemaFromInterface n fs v) (AList.clearjunk pm) [])
                   (\<lambda>ps. Ok (Some ps))
             | Some _ \<Rightarrow> Panic BadAssertion) \<noteq> OutOfFuel"
      using that pl
      by (auto split: option.splits json.splits intro!: bind_r_more [where m' = "props_loop (\<lambda>v. SchemaFromInterface (Suc n) fs v) _ []"])
    from ne show ?thesis
      unfolding JObj SchemaFromInterface.simps
      by (intro bind_r_more s l pr) auto
  qed simp_all
  have lr: "LoadRef (Suc (Suc n)) fs js = LoadRef (Suc n) fs js"
    if ne: "LoadRef (Suc n) fs js \<noteq> OutOfFuel" for fs js
  proof -
    have ext: "(case Extends js1 of
          None \<Rightarrow> Ok (LoadRef_norm js1 ap)
        | Some e \<Rightarrow>
            bind_r (LoadRef (Suc n) fs e) (\<lambda>e'. Ok (LoadRef_merge (LoadRef_norm js1 ap) e'))) =
        (case Extends js1 of
          None \<Rightarrow> Ok (LoadRef_norm js1 ap)
        | Some e \<Rightarrow>
            bind_r (LoadRef n fs e) (\<lambda>e'. Ok (LoadRef_merge (LoadRef_norm js1 ap) e')))"
      if "(case Extends js1 of
          None \<Rightarrow> Ok (LoadRef_norm js1 ap)
        | Some e \<Rightarrow>
            bind_r (LoadRef n fs e) (\<lambda>e'. Ok (LoadRef_merge (LoadRef_norm js1 ap) e')))
          \<noteq> OutOfFuel" for js1 ap
    proof (cases "Extends js1")
      case None
      then show ?thesis by simp
    next
      case (Some e)
      with that have "LoadRef n fs e \<noteq> OutOfFuel"
        by (cases "LoadRef n fs e") (simp_all del: LoadRef.simps)
      from l [OF this] Some show ?thesis by (simp del: LoadRef.simps)
    qed
    have "bind_r (LoadRef_ref fs js) (\<lambda>js1.
        bind_r (SchemaFromInterface (Suc n) fs (AdditionalInterface js1)) (\<lambda>ap.
        (case Extends js1 of
          None \<Rightarrow> Ok (LoadRef_norm js1 ap)
        | Some e \<Rightarrow>
            bind_r (LoadRef (Suc n) fs e) (\<lambda>e'. Ok (LoadRef_merge (LoadRef_norm js1 ap) e'))))) =
      bind_r (LoadRef_ref fs js) (\<lambda>js1.
        bind_r (SchemaFromInterface n fs (AdditionalInterface js1)) (\<lambda>ap.
        (case Extends js1 of
          None \<Rightarrow> Ok (LoadRef_norm js1 ap)
        | Some e \<Rightarrow>
            bind_r (LoadRef n fs e) (\<lambda>e'. Ok (LoadRef_merge (LoadRef_norm js1 ap) e')))))"
      using ne [unfolded LoadRef.simps(2) [of n]]
      by (intro bind_r_more s ext) auto
    then show ?thesis
      by (simp only: LoadRef.simps(2) [of "Suc n"] LoadRef.simps(2) [of n])
  qed
  from sfi lr show ?case by blast
qed


lemma LoadRef_more: "LoadRef n fs js \<noteq> OutOfFuel \<Longrightarrow> LoadRef (Suc n) fs js = LoadRef n fs js"
  using resolution_more by blast

lemma GoType_more:
  "GoType n fs pre js c reg \<noteq> OutOfFuel \<Longrightarrow> GoType (Suc n) fs pre js c reg = GoType n fs pre js c reg"
proof (induction n arbitrary: js c reg)
  case 0
  then show ?case by simp
next
  case (Suc n)
  from Suc.prems have lne: "LoadRef n fs js \<noteq> OutOfFuel"
    by (cases "LoadRef n fs js") simp_all
  note l' = LoadRef_more [OF lne]
  show ?case
  proof (cases "LoadRef n fs js")
    case OutOfFuel
    with lne show ?thesis by simp
  next
    case (Panic e)
    with l' show ?thesis by simp
  next
    case (Ok js')
    with l' have ok': "LoadRef (Suc n) fs js = Ok js'" by simp
    note ok = Ok
    show ?thesis
    proof (cases "Type js'")
      case (JStr t)
      consider "t = ''array''" | "t = ''object''" "props_of js' = []"
        | "t = ''object''" "props_of js' \<noteq> []" | "t \<noteq> ''array''" "t \<noteq> ''object''"
        by blast
      then show ?thesis
      proof cases
        case 1
        with JStr have ty: "Type js' = JStr ''array''" by simp
        note a = GoType_array [OF ok ty, of pre c reg]
        note b = GoType_array [OF ok' ty, of pre c reg]
        show ?thesis
        proof (cases "Items js'")
          case None
          then show ?thesis by (simp only: a b option.case)
        next
          case (Some it)
          from Suc.prems [unfolded a] Some have "GoType n fs pre it True reg \<noteq> OutOfFuel"
            by (cases "GoType n fs pre it True reg") (simp_all del: GoType.simps)
          from Suc.IH [OF this] Some show ?thesis by (simp only: a b option.case)
        qed
      next
        case 2
        with JStr have ty: "Type js' = JStr ''object''" by simp
        note a = GoType_object_empty [OF ok ty 2(2), of pre c reg]
        note b = GoType_object_empty [OF ok' ty 2(2), of pre c reg]
        show ?thesis
        proof (cases "AdditionalProperties js'")
          case None
          then show ?thesis by (simp only: a b option.case)
        next
          case (Some ap)
          from Suc.prems [unfolded a] Some have "GoType n fs pre ap True reg \<noteq> OutOfFuel"
            by (cases "GoType n fs pre ap True reg") (simp_all del: GoType.simps)
          from Suc.IH [OF this] Some show ?thesis by (simp only: a b option.case)
        qed
      next
        case 3
        with JStr have ty: "Type js' = JStr ''object''" by simp
        note a = GoType_object_fields [OF ok ty 3(2), of pre c reg]
        note b = GoType_object_fields [OF ok' ty 3(2), of pre c reg]
        from Suc.prems [unfolded a]
        have "fields (\<lambda>ch r. GoType n fs pre ch True r) (props_of js')
              (SortedKeys (props_of js')) (''struct {'' @ [nl]) reg \<noteq> OutOfFuel"
          by (cases "fields (\<lambda>ch r. GoType n fs pre ch True r) (props_of js')
              (SortedKeys (props_of js')) (''struct {'' @ [nl]) reg") (simp_all del: GoType.simps)
        then have "fields (\<lambda>ch r. GoType (Suc n) fs pre ch True r) (props_of js')
              (SortedKeys (props_of js')) (''struct {'' @ [nl]) reg =
            fields (\<lambda>ch r. GoType n fs pre ch True r) (props_of js')
              (SortedKeys (props_of js')) (''struct {'' @ [nl]) reg"
          by (rule fields_more [rotated]) (rule Suc.IH)
        then show ?thesis by (simp only: a b)
      next
        case 4
        with ok ok' JStr show ?thesis by simp
      qed
    next
      case (JArr ts)
      note a = GoType_list [OF ok JArr, of pre c reg]
      note b = GoType_list [OF ok' JArr, of pre c reg]
      show ?thesis
      proof (cases "length ts \<noteq> 1")
        case True
        then show ?thesis by (simp add: a b del: GoType.simps)
      next
        case False
        with Suc.prems [unfolded a]
        have "GoType n fs pre (type_node (Title js') (hd ts)) c reg \<noteq> OutOfFuel"
          by (simp del: GoType.simps)
        from Suc.IH [OF this] False show ?thesis by (simp add: a b del: GoType.simps)
      qed
    qed (use ok ok' in simp_all)
  qed
qed

lemma GoType_enough:
  "n \<le> m \<Longrightarrow> GoType n fs pre js c reg \<noteq> OutOfFuel \<Longrightarrow>
     GoType m fs pre js c reg = GoType n fs pre js c reg"
proof (induction m)
  case 0
  then show ?case by simp
next
  case (Suc m)
  show ?case
  proof (cases "n = Suc m")
    case True
    then show ?thesis by simp
  next
    case False
    with Suc.prems have "n \<le> m" by simp
    from Suc.IH [OF this Suc.prems(2)] have eq: "GoType m fs pre js c reg = GoType n fs pre js c reg" .
    with Suc.prems(2) have "GoType m fs pre js c reg \<noteq> OutOfFuel" by (simp del: GoType.simps)
    from GoType_more [OF this] eq show ?thesis by (simp del: GoType.simps)
  qed
qed

lemma LoadRef_enough:
  "n \<le> m \<Longrightarrow> LoadRef n fs js \<noteq> OutOfFuel \<Longrightarrow> LoadRef m fs js = LoadRef n fs js"
proof (induction m)
  case 0
  then show ?case by simp
next
  case (Suc m)
  show ?case
  proof (cases "n = Suc m")
    case True
    then show ?thesis by simp
  next
    case False
    with Suc.prems have "n \<le> m" by simp
    from Suc.IH [OF this Suc.prems(2)] have eq: "LoadRef m fs js = LoadRef n fs js" .
    with Suc.prems(2) have "LoadRef m fs js \<noteq> OutOfFuel" by (simp del: LoadRef.simps)
    from LoadRef_more [OF this] eq show ?thesis by (simp del: LoadRef.simps)
  qed
qed

end
